theory Spec2Isabelle
  imports Main
begin

section \<open>Data model\<close>

text \<open>
  The chat backend keeps conversations and messages in MongoDB (through the Mongoose
  models \<^verbatim>\<open>Conversation\<close> and \<^verbatim>\<open>Message\<close>) and a cache in Redis
  (through \<^verbatim>\<open>cacheService\<close>). An ObjectId is a natural number, a date is a number
  of seconds, a JavaScript number that the code only uses as an integer is an \<open>int\<close>.
  Every operation takes the time of the call (\<open>now\<close>) and the identifiers that the
  call generates (\<^verbatim>\<open>uuidv4()\<close>, the \<^verbatim>\<open>_id\<close> of a new document) as arguments.
\<close>

type_synonym objectId = nat
type_synonym date = nat

text \<open>
  The errors an operation can raise. \<open>NotFound\<close> is
  \<^verbatim>\<open>new Error('Conversation not found')\<close>; \<open>CacheError\<close> is a rejected Redis
  command; \<open>ValidationError\<close> and \<open>DuplicateKey\<close> are what \<^verbatim>\<open>save()\<close>
  raises for a schema violation and a unique index; \<open>UploadFailed\<close> is
  \<^verbatim>\<open>new Error('Failed to upload file: ...')\<close>; \<open>BadValue\<close> is MongoDB refusing
  a negative skip.
\<close>

datatype error = NotFound | CacheError | ValidationError | DuplicateKey | UploadFailed | BadValue

record conv_metadata =
  userAgent :: "string option"
  ipAddress :: "string option"
  language :: "string option"
  platform :: "string option"

record conversation =
  c_id :: objectId
  c_sessionId :: string
  c_userId :: string
  c_title :: string
  c_type :: string
  c_metadata :: conv_metadata
  c_isActive :: bool
  c_lastActivity :: date
  c_messageCount :: int
  c_createdAt :: date
  c_updatedAt :: date

text \<open>The projection \<^verbatim>\<open>{id, sessionId, userId, type, createdAt}\<close> that is cached
  and that \<^verbatim>\<open>getConversation\<close> returns.\<close>

record cached_conversation =
  cc_id :: objectId
  cc_sessionId :: string
  cc_userId :: string
  cc_type :: string
  cc_createdAt :: date

record image =
  i_url :: string
  i_cloudStorageKey :: string
  i_size :: nat
  i_mimeType :: string

record attachment =
  a_fileName :: string
  a_url :: string
  a_cloudStorageKey :: string
  a_size :: nat
  a_mimeType :: string

text \<open>\<^verbatim>\<open>messageData\<close> of \<^verbatim>\<open>addMessage\<close>: the plain object that is cached.\<close>

record message_data =
  md_conversationId :: objectId
  md_sessionId :: string
  md_messageId :: string
  md_role :: string
  md_text :: string
  md_images :: "image list"
  md_attachments :: "attachment list"
  md_timestamp :: date
  md_tokenCount :: nat

text \<open>A stored \<^verbatim>\<open>Message\<close> document: the data, its \<^verbatim>\<open>_id\<close> and the
  timestamps that \<^verbatim>\<open>timestamps: true\<close> adds.\<close>

record message =
  m_id :: objectId
  m_data :: message_data
  m_createdAt :: date
  m_updatedAt :: date

record multer_file =
  originalname :: string
  mimetype :: string
  f_size :: nat

record upload_result =
  u_key :: string
  u_url :: string
  u_size :: nat
  u_mimeType :: string

section \<open>The cache (Redis)\<close>

text \<open>
  A Redis entry is a value and an optional expiry time; an entry whose expiry time has
  passed is absent to every command. The three key families of \<^verbatim>\<open>cacheService\<close>
  that the chat service touches, \<^verbatim>\<open>session:<id>\<close>, \<^verbatim>\<open>conversation:<id>\<close> and
  \<^verbatim>\<open>messages:<id>\<close>, have different prefixes, so they are three maps from the
  session id. \<^verbatim>\<open>JSON.parse (JSON.stringify x)\<close> is taken to give \<open>x\<close> back.

  A Redis command can be rejected (the server is unreachable). \<open>faults\<close> is the
  schedule of the commands to come: the head says whether the next command is
  rejected, and the empty schedule rejects none. A command consumes its flag.
\<close>

type_synonym 'v entry = "'v \<times> date option"

record cache =
  session_keys :: "string \<rightharpoonup> string entry"
  conversation_keys :: "string \<rightharpoonup> cached_conversation entry"
  messages_keys :: "string \<rightharpoonup> message_data list entry"
  faults :: "bool list"

definition live :: "date \<Rightarrow> 'v entry option \<Rightarrow> 'v entry option" where
  "live now e =
     (case e of
        None \<Rightarrow> None
      | Some (v, None) \<Rightarrow> Some (v, None)
      | Some (v, Some t) \<Rightarrow> (if now < t then Some (v, Some t) else None))"

definition rejected :: "cache \<Rightarrow> bool" where
  "rejected c = (case faults c of [] \<Rightarrow> False | f # fs \<Rightarrow> f)"

definition consumed :: "cache \<Rightarrow> cache" where
  "consumed c = c\<lparr>faults := tl (faults c)\<rparr>"

text \<open>The elements that \<^verbatim>\<open>LRANGE start stop\<close> returns and that
  \<^verbatim>\<open>LTRIM start stop\<close> keeps: a negative index counts from the end, the range is
  clipped to the list, and it is empty when it starts after its end.\<close>

definition redis_range :: "'a list \<Rightarrow> int \<Rightarrow> int \<Rightarrow> 'a list" where
  "redis_range xs start stop =
     (let n = int (length xs);
          s0 = (if start < 0 then n + start else start);
          e0 = (if stop < 0 then n + stop else stop);
          s1 = (if s0 < 0 then 0 else s0)
      in if e0 < s1 \<or> n \<le> s1 then []
         else take (nat ((if n \<le> e0 then n - 1 else e0) - s1 + 1)) (drop (nat s1) xs))"

text \<open>The Redis commands on the three key families. Each returns its reply, or
  \<open>CacheError\<close> when it is rejected, and the cache after it.\<close>

definition get_conversation_key ::
  "date \<Rightarrow> cache \<Rightarrow> string \<Rightarrow> (error + cached_conversation option) \<times> cache" where
  "get_conversation_key now c sid =
     (if rejected c then (Inl CacheError, consumed c)
      else (Inr (map_option fst (live now (conversation_keys c sid))), consumed c))"

definition setex_conversation_key ::
  "date \<Rightarrow> cache \<Rightarrow> string \<Rightarrow> nat \<Rightarrow> cached_conversation \<Rightarrow> (error + unit) \<times> cache" where
  "setex_conversation_key now c sid ttl v =
     (if rejected c then (Inl CacheError, consumed c)
      else (Inr (),
            (consumed c)\<lparr>conversation_keys := (conversation_keys c)(sid \<mapsto> (v, Some (now + ttl)))\<rparr>))"

definition del_session_key :: "cache \<Rightarrow> string \<Rightarrow> (error + unit) \<times> cache" where
  "del_session_key c sid =
     (if rejected c then (Inl CacheError, consumed c)
      else (Inr (), (consumed c)\<lparr>session_keys := (session_keys c)(sid := None)\<rparr>))"

definition lpush :: "date \<Rightarrow> cache \<Rightarrow> string \<Rightarrow> message_data \<Rightarrow> (error + unit) \<times> cache" where
  "lpush now c sid v =
     (if rejected c then (Inl CacheError, consumed c)
      else (Inr (),
            (consumed c)\<lparr>messages_keys := (messages_keys c)(sid \<mapsto>
               (case live now (messages_keys c sid) of
                  None \<Rightarrow> ([v], None)
                | Some (xs, t) \<Rightarrow> (v # xs, t)))\<rparr>))"

definition expire :: "date \<Rightarrow> cache \<Rightarrow> string \<Rightarrow> nat \<Rightarrow> (error + unit) \<times> cache" where
  "expire now c sid ttl =
     (if rejected c then (Inl CacheError, consumed c)
      else (Inr (),
            (case live now (messages_keys c sid) of
               None \<Rightarrow> consumed c
             | Some (xs, t) \<Rightarrow>
                 (consumed c)\<lparr>messages_keys := (messages_keys c)(sid \<mapsto> (xs, Some (now + ttl)))\<rparr>)))"

definition ltrim :: "date \<Rightarrow> cache \<Rightarrow> string \<Rightarrow> int \<Rightarrow> int \<Rightarrow> (error + unit) \<times> cache" where
  "ltrim now c sid start stop =
     (if rejected c then (Inl CacheError, consumed c)
      else (Inr (),
            (case live now (messages_keys c sid) of
               None \<Rightarrow> consumed c
             | Some (xs, t) \<Rightarrow>
                 (consumed c)\<lparr>messages_keys := (messages_keys c)(sid :=
                    (if redis_range xs start stop = [] then None
                     else Some (redis_range xs start stop, t)))\<rparr>)))"

definition lrange ::
  "date \<Rightarrow> cache \<Rightarrow> string \<Rightarrow> int \<Rightarrow> int \<Rightarrow> (error + message_data list) \<times> cache" where
  "lrange now c sid start stop =
     (if rejected c then (Inl CacheError, consumed c)
      else (Inr (case live now (messages_keys c sid) of
                   None \<Rightarrow> []
                 | Some (xs, t) \<Rightarrow> redis_range xs start stop),
            consumed c))"

subsection \<open>cacheService\<close>

definition deleteSession :: "cache \<Rightarrow> string \<Rightarrow> (error + unit) \<times> cache" where
  "deleteSession c sessionId = del_session_key c sessionId"

definition cacheConversation ::
  "date \<Rightarrow> cache \<Rightarrow> string \<Rightarrow> cached_conversation \<Rightarrow> (error + unit) \<times> cache" where
  "cacheConversation now c sessionId conv = setex_conversation_key now c sessionId 3600 conv"

definition getCachedConversation ::
  "date \<Rightarrow> cache \<Rightarrow> string \<Rightarrow> (error + cached_conversation option) \<times> cache" where
  "getCachedConversation now c sessionId = get_conversation_key now c sessionId"

text \<open>\<^verbatim>\<open>cacheService.addMessage\<close>: three commands, one after the other, and the
  first rejected one ends the call.\<close>

definition cache_addMessage ::
  "date \<Rightarrow> cache \<Rightarrow> string \<Rightarrow> message_data \<Rightarrow> (error + unit) \<times> cache" where
  "cache_addMessage now c sessionId msg =
     (case lpush now c sessionId msg of
        (Inl e, c1) \<Rightarrow> (Inl e, c1)
      | (Inr u1, c1) \<Rightarrow>
          (case expire now c1 sessionId 3600 of
             (Inl e, c2) \<Rightarrow> (Inl e, c2)
           | (Inr u2, c2) \<Rightarrow> ltrim now c2 sessionId 0 49))"

definition getRecentMessages ::
  "date \<Rightarrow> cache \<Rightarrow> string \<Rightarrow> int \<Rightarrow> (error + message_data list) \<times> cache" where
  "getRecentMessages now c sessionId count = lrange now c sessionId 0 (count - 1)"

section \<open>The store (MongoDB)\<close>

text \<open>
  A collection is the list of its documents in insertion order. The store is taken to
  be reachable; the errors of \<^verbatim>\<open>save()\<close> that the data decide (schema
  validation, unique indexes) are modelled.
\<close>

record state =
  conversations :: "conversation list"
  messages :: "message list"
  cache :: cache

text \<open>The \<^verbatim>\<open>Conversation\<close> schema: \<^verbatim>\<open>sessionId\<close> and \<^verbatim>\<open>userId\<close> are
  required strings (Mongoose refuses the empty string), \<^verbatim>\<open>type\<close> is one of three
  values, \<^verbatim>\<open>sessionId\<close> and \<^verbatim>\<open>_id\<close> are unique.\<close>

definition valid_conversation :: "conversation \<Rightarrow> bool" where
  "valid_conversation c =
     (c_sessionId c \<noteq> [] \<and> c_userId c \<noteq> [] \<and>
      c_type c \<in> set [''general'', ''plant_doctor'', ''knowledge''])"

definition save_conversation :: "conversation list \<Rightarrow> conversation \<Rightarrow> error + conversation list" where
  "save_conversation cs c =
     (if \<not> valid_conversation c then Inl ValidationError
      else if c_id c \<in> set (map c_id cs) then Inl DuplicateKey
      else if c_sessionId c \<in> set (map c_sessionId cs) then Inl DuplicateKey
      else Inr (cs @ [c]))"

text \<open>The \<^verbatim>\<open>Message\<close> schema: \<^verbatim>\<open>sessionId\<close>, \<^verbatim>\<open>messageId\<close> and
  \<^verbatim>\<open>role\<close> are required, \<^verbatim>\<open>role\<close> is one of three values, \<^verbatim>\<open>messageId\<close>
  and \<^verbatim>\<open>_id\<close> are unique.\<close>

definition valid_message :: "message \<Rightarrow> bool" where
  "valid_message m =
     (md_sessionId (m_data m) \<noteq> [] \<and> md_messageId (m_data m) \<noteq> [] \<and>
      md_role (m_data m) \<in> set [''user'', ''assistant'', ''system''])"

definition save_message :: "message list \<Rightarrow> message \<Rightarrow> error + message list" where
  "save_message ms m =
     (if \<not> valid_message m then Inl ValidationError
      else if m_id m \<in> set (map m_id ms) then Inl DuplicateKey
      else if md_messageId (m_data m) \<in> set (map (\<lambda>x. md_messageId (m_data x)) ms)
        then Inl DuplicateKey
      else Inr (ms @ [m]))"

text \<open>\<^verbatim>\<open>Conversation.findOne({ sessionId, isActive: true })\<close> and
  \<^verbatim>\<open>Conversation.findOne({ sessionId, userId })\<close>.\<close>

definition findOne_active :: "conversation list \<Rightarrow> string \<Rightarrow> conversation option" where
  "findOne_active cs sessionId = find (\<lambda>c. c_sessionId c = sessionId \<and> c_isActive c) cs"

definition findOne_owned :: "conversation list \<Rightarrow> string \<Rightarrow> string \<Rightarrow> conversation option" where
  "findOne_owned cs sessionId userId =
     find (\<lambda>c. c_sessionId c = sessionId \<and> c_userId c = userId) cs"

text \<open>\<^verbatim>\<open>Conversation.findByIdAndUpdate(id, update)\<close>: the first document with
  that \<^verbatim>\<open>_id\<close> is updated, and no document is not an error.\<close>

fun findByIdAndUpdate ::
  "objectId \<Rightarrow> (conversation \<Rightarrow> conversation) \<Rightarrow> conversation list \<Rightarrow> conversation list" where
  "findByIdAndUpdate i f [] = []"
| "findByIdAndUpdate i f (c # cs) =
     (if c_id c = i then f c # cs else c # findByIdAndUpdate i f cs)"

text \<open>\<^verbatim>\<open>.skip(skip).limit(limit)\<close> on a sorted result: MongoDB refuses a negative
  skip, takes limit 0 as no limit and a negative limit as its absolute value.\<close>

definition skip_limit :: "'a list \<Rightarrow> int \<Rightarrow> int \<Rightarrow> error + 'a list" where
  "skip_limit xs skip limit =
     (if skip < 0 then Inl BadValue
      else if limit = 0 then Inr (drop (nat skip) xs)
      else Inr (take (nat \<bar>limit\<bar>) (drop (nat skip) xs)))"

text \<open>\<^verbatim>\<open>.sort({ field: -1 })\<close>: descending; documents with the same value keep
  the reverse of their insertion order, so that reversing the result gives insertion
  order among them.\<close>

definition sort_desc :: "('a \<Rightarrow> date) \<Rightarrow> 'a list \<Rightarrow> 'a list" where
  "sort_desc f xs = rev (sort_key f xs)"

section \<open>storageService\<close>

text \<open>\<^verbatim>\<open>uploadFile(file, folder)\<close>. The service holds the bucket and the region;
  \<open>uuid_of\<close> is the uuid that the call generates for the file and \<open>accepts\<close> says
  whether \<^verbatim>\<open>s3Client.send\<close> succeeds for it. A failed send is the only error.\<close>

record storage =
  bucketName :: string
  region :: string
  uuid_of :: "multer_file \<Rightarrow> string"
  accepts :: "multer_file \<Rightarrow> bool"

definition uploadFile :: "storage \<Rightarrow> multer_file \<Rightarrow> string \<Rightarrow> error + upload_result" where
  "uploadFile st file folder =
     (let key = folder @ ''/'' @ uuid_of st file @ ''-'' @ originalname file
      in if accepts st file
         then Inr \<lparr>u_key = key,
                   u_url = ''https://'' @ bucketName st @ ''.s3.'' @ region st @
                           ''.amazonaws.com/'' @ key,
                   u_size = f_size file,
                   u_mimeType = mimetype file\<rparr>
         else Inl UploadFailed)"

section \<open>chatService\<close>

text \<open>The arguments of an operation are the values it works with: a parameter that
  the caller left out has its default already (\<^verbatim>\<open>type = 'general'\<close>, empty
  \<^verbatim>\<open>metadata\<close> and \<^verbatim>\<open>files\<close>, \<^verbatim>\<open>page = 1\<close>, \<^verbatim>\<open>limit = 50\<close> for
  \<^verbatim>\<open>getMessages\<close> and 20 for \<^verbatim>\<open>getUserConversations\<close>). \<open>sessionId\<close> and
  \<open>oid\<close> of \<^verbatim>\<open>createConversation\<close> are the uuid and the \<^verbatim>\<open>_id\<close> that the call
  generates.\<close>

definition createConversation ::
  "date \<Rightarrow> string \<Rightarrow> objectId \<Rightarrow> state \<Rightarrow> string \<Rightarrow> string \<Rightarrow> conv_metadata
     \<Rightarrow> (error + conversation) \<times> state" where
  "createConversation now sessionId oid s userId type metadata =
     (let conversation =
            \<lparr>c_id = oid, c_sessionId = sessionId, c_userId = userId,
             c_title = ''New Conversation'', c_type = type, c_metadata = metadata,
             c_isActive = True, c_lastActivity = now, c_messageCount = 0,
             c_createdAt = now, c_updatedAt = now\<rparr>
      in case save_conversation (conversations s) conversation of
           Inl e \<Rightarrow> (Inl e, s)
         | Inr cs \<Rightarrow>
             (case cacheConversation now (cache s) sessionId
                     \<lparr>cc_id = oid, cc_sessionId = sessionId, cc_userId = userId,
                      cc_type = type, cc_createdAt = now\<rparr> of
                (Inl e, c1) \<Rightarrow> (Inl e, s\<lparr>conversations := cs, cache := c1\<rparr>)
              | (Inr u, c1) \<Rightarrow> (Inr conversation, s\<lparr>conversations := cs, cache := c1\<rparr>)))"

text \<open>\<^verbatim>\<open>getConversation\<close> returns \<^verbatim>\<open>null\<close> (\<open>None\<close>) when the cache has no
  entry and the store has no active conversation; its callers raise \<open>NotFound\<close> then.
  A rejected cache command rejects the call: the code has no \<^verbatim>\<open>try\<close>.\<close>

definition getConversation ::
  "date \<Rightarrow> state \<Rightarrow> string \<Rightarrow> (error + cached_conversation option) \<times> state" where
  "getConversation now s sessionId =
     (case getCachedConversation now (cache s) sessionId of
        (Inl e, c1) \<Rightarrow> (Inl e, s\<lparr>cache := c1\<rparr>)
      | (Inr (Some conversation), c1) \<Rightarrow> (Inr (Some conversation), s\<lparr>cache := c1\<rparr>)
      | (Inr None, c1) \<Rightarrow>
          (case findOne_active (conversations s) sessionId of
             None \<Rightarrow> (Inr None, s\<lparr>cache := c1\<rparr>)
           | Some dbConversation \<Rightarrow>
               (let conversation =
                      \<lparr>cc_id = c_id dbConversation,
                       cc_sessionId = c_sessionId dbConversation,
                       cc_userId = c_userId dbConversation,
                       cc_type = c_type dbConversation,
                       cc_createdAt = c_createdAt dbConversation\<rparr>
                in case cacheConversation now c1 sessionId conversation of
                     (Inl e, c2) \<Rightarrow> (Inl e, s\<lparr>cache := c2\<rparr>)
                   | (Inr u, c2) \<Rightarrow> (Inr (Some conversation), s\<lparr>cache := c2\<rparr>))))"

text \<open>The loop over \<^verbatim>\<open>files\<close> of \<^verbatim>\<open>addMessage\<close>: each file is uploaded to the
  folder and lands in \<^verbatim>\<open>images\<close> or in \<^verbatim>\<open>attachments\<close>; a failed upload ends
  the call. \<open>upload\<close> is the storage service at the time of the call.\<close>

fun upload_files ::
  "storage \<Rightarrow> string \<Rightarrow> multer_file list
     \<Rightarrow> image list \<Rightarrow> attachment list \<Rightarrow> error + image list \<times> attachment list" where
  "upload_files upload folder [] images attachments = Inr (images, attachments)"
| "upload_files upload folder (f # fs) images attachments =
     (case uploadFile upload f folder of
        Inl e \<Rightarrow> Inl e
      | Inr uploadResult \<Rightarrow>
          (if take 6 (mimetype f) = ''image/''
           then upload_files upload folder fs
                  (images @ [\<lparr>i_url = u_url uploadResult, i_cloudStorageKey = u_key uploadResult,
                              i_size = u_size uploadResult, i_mimeType = u_mimeType uploadResult\<rparr>])
                  attachments
           else upload_files upload folder fs images
                  (attachments @ [\<lparr>a_fileName = originalname f, a_url = u_url uploadResult,
                                   a_cloudStorageKey = u_key uploadResult,
                                   a_size = u_size uploadResult,
                                   a_mimeType = u_mimeType uploadResult\<rparr>])))"

text \<open>\<^verbatim>\<open>addMessage\<close>. \<open>messageId\<close> is the uuid and \<open>oid\<close> the \<^verbatim>\<open>_id\<close> that
  the call generates. The order is the code's: resolve the conversation, upload the
  files, save the message, push it on the cache window, then increment
  \<^verbatim>\<open>messageCount\<close> with \<^verbatim>\<open>$inc\<close>.\<close>

definition addMessage ::
  "storage \<Rightarrow> date \<Rightarrow> string \<Rightarrow> objectId \<Rightarrow> state
     \<Rightarrow> string \<Rightarrow> string \<Rightarrow> string \<Rightarrow> multer_file list \<Rightarrow> (error + message) \<times> state" where
  "addMessage upload now messageId oid s sessionId role content files =
     (case getConversation now s sessionId of
        (Inl e, s1) \<Rightarrow> (Inl e, s1)
      | (Inr None, s1) \<Rightarrow> (Inl NotFound, s1)
      | (Inr (Some conversation), s1) \<Rightarrow>
          (case upload_files upload (''conversations/'' @ sessionId) files [] [] of
             Inl e \<Rightarrow> (Inl e, s1)
           | Inr (images, attachments) \<Rightarrow>
               (let messageData =
                      \<lparr>md_conversationId = cc_id conversation, md_sessionId = sessionId,
                       md_messageId = messageId, md_role = role, md_text = content,
                       md_images = images, md_attachments = attachments,
                       md_timestamp = now, md_tokenCount = length content\<rparr>;
                    message =
                      \<lparr>m_id = oid, m_data = messageData, m_createdAt = now, m_updatedAt = now\<rparr>
                in case save_message (messages s1) message of
                     Inl e \<Rightarrow> (Inl e, s1)
                   | Inr ms \<Rightarrow>
                       (case cache_addMessage now (cache s1) sessionId messageData of
                          (Inl e, c2) \<Rightarrow> (Inl e, s1\<lparr>messages := ms, cache := c2\<rparr>)
                        | (Inr u, c2) \<Rightarrow>
                            (Inr message,
                             s1\<lparr>conversations :=
                                  findByIdAndUpdate (cc_id conversation)
                                    (\<lambda>c. c\<lparr>c_lastActivity := now,
                                            c_messageCount := c_messageCount c + 1,
                                            c_updatedAt := now\<rparr>)
                                    (conversations s1),
                                messages := ms, cache := c2\<rparr>)))))"

text \<open>What \<^verbatim>\<open>getMessages\<close> returns: the cached \<^verbatim>\<open>messageData\<close> objects on the
  cache path, the stored documents on the store path.\<close>

datatype message_view = Cached message_data | Stored message

fun sent_at :: "message_view \<Rightarrow> date" where
  "sent_at (Cached d) = md_timestamp d"
| "sent_at (Stored m) = m_createdAt m"

fun view_id :: "message_view \<Rightarrow> string" where
  "view_id (Cached d) = md_messageId d"
| "view_id (Stored m) = md_messageId (m_data m)"

text \<open>The second half of \<^verbatim>\<open>getMessages\<close> (``Fallback to database with
  pagination'').\<close>

definition getMessages_store ::
  "date \<Rightarrow> state \<Rightarrow> string \<Rightarrow> int \<Rightarrow> int \<Rightarrow> (error + message_view list) \<times> state" where
  "getMessages_store now s sessionId page limit =
     (case getConversation now s sessionId of
        (Inl e, s1) \<Rightarrow> (Inl e, s1)
      | (Inr None, s1) \<Rightarrow> (Inl NotFound, s1)
      | (Inr (Some conversation), s1) \<Rightarrow>
          (case skip_limit
                  (sort_desc m_createdAt
                     (filter (\<lambda>m. md_conversationId (m_data m) = cc_id conversation) (messages s1)))
                  ((page - 1) * limit) limit of
             Inl e \<Rightarrow> (Inl e, s1)
           | Inr ms \<Rightarrow> (Inr (map Stored (rev ms)), s1)))"

definition getMessages ::
  "date \<Rightarrow> state \<Rightarrow> string \<Rightarrow> int \<Rightarrow> int \<Rightarrow> (error + message_view list) \<times> state" where
  "getMessages now s sessionId page limit =
     (if page = 1 \<and> limit \<le> 10
      then (case getRecentMessages now (cache s) sessionId limit of
              (Inl e, c1) \<Rightarrow> (Inl e, s\<lparr>cache := c1\<rparr>)
            | (Inr cachedMessages, c1) \<Rightarrow>
                (if length cachedMessages > 0
                 then (Inr (map Cached cachedMessages), s\<lparr>cache := c1\<rparr>)
                 else getMessages_store now (s\<lparr>cache := c1\<rparr>) sessionId page limit))
      else getMessages_store now s sessionId page limit)"

text \<open>The fields that \<^verbatim>\<open>getUserConversations\<close> selects.\<close>

record conversation_summary =
  cs_id :: objectId
  cs_sessionId :: string
  cs_title :: string
  cs_type :: string
  cs_lastActivity :: date
  cs_messageCount :: int
  cs_createdAt :: date

definition summary :: "conversation \<Rightarrow> conversation_summary" where
  "summary c =
     \<lparr>cs_id = c_id c, cs_sessionId = c_sessionId c, cs_title = c_title c, cs_type = c_type c,
      cs_lastActivity = c_lastActivity c, cs_messageCount = c_messageCount c,
      cs_createdAt = c_createdAt c\<rparr>"

definition getUserConversations ::
  "state \<Rightarrow> string \<Rightarrow> int \<Rightarrow> int \<Rightarrow> error + conversation_summary list" where
  "getUserConversations s userId page limit =
     (case skip_limit
             (sort_desc c_lastActivity
                (filter (\<lambda>c. c_userId c = userId \<and> c_isActive c) (conversations s)))
             ((page - 1) * limit) limit of
        Inl e \<Rightarrow> Inl e
      | Inr cs \<Rightarrow> Inr (map summary cs))"

definition deleteConversation ::
  "date \<Rightarrow> state \<Rightarrow> string \<Rightarrow> string \<Rightarrow> (error + bool) \<times> state" where
  "deleteConversation now s sessionId userId =
     (case findOne_owned (conversations s) sessionId userId of
        None \<Rightarrow> (Inl NotFound, s)
      | Some conversation \<Rightarrow>
          (let s1 = s\<lparr>conversations :=
                       findByIdAndUpdate (c_id conversation)
                         (\<lambda>c. c\<lparr>c_isActive := False, c_updatedAt := now\<rparr>) (conversations s)\<rparr>
           in case deleteSession (cache s1) sessionId of
                (Inl e, c1) \<Rightarrow> (Inl e, s1\<lparr>cache := c1\<rparr>)
              | (Inr u, c1) \<Rightarrow> (Inr True, s1\<lparr>cache := c1\<rparr>)))"

section \<open>Notions the properties are stated with\<close>

text \<open>The projection of a stored conversation that \<^verbatim>\<open>getConversation\<close> builds, the
  live cache entry of a session at a time, and the live message window of a session.\<close>

definition projection :: "conversation \<Rightarrow> cached_conversation" where
  "projection c =
     \<lparr>cc_id = c_id c, cc_sessionId = c_sessionId c, cc_userId = c_userId c,
      cc_type = c_type c, cc_createdAt = c_createdAt c\<rparr>"

definition cached_now :: "date \<Rightarrow> cache \<Rightarrow> string \<Rightarrow> cached_conversation option" where
  "cached_now now c sessionId = map_option fst (live now (conversation_keys c sessionId))"

definition window :: "date \<Rightarrow> cache \<Rightarrow> string \<Rightarrow> message_data list" where
  "window now c sessionId =
     (case live now (messages_keys c sessionId) of None \<Rightarrow> [] | Some (xs, t) \<Rightarrow> xs)"

definition window_expiry :: "date \<Rightarrow> cache \<Rightarrow> string \<Rightarrow> date option" where
  "window_expiry now c sessionId =
     (case live now (messages_keys c sessionId) of None \<Rightarrow> None | Some (xs, t) \<Rightarrow> t)"

text \<open>The owner of the conversation with a session id, whether it is active, its
  \<^verbatim>\<open>messageCount\<close> by \<^verbatim>\<open>_id\<close>, and the number of stored messages that a
  conversation owns.\<close>

definition owner_of :: "state \<Rightarrow> string \<Rightarrow> string option" where
  "owner_of s sessionId =
     map_option c_userId (find (\<lambda>c. c_sessionId c = sessionId) (conversations s))"

definition isActive_of :: "state \<Rightarrow> string \<Rightarrow> bool option" where
  "isActive_of s sessionId =
     map_option c_isActive (find (\<lambda>c. c_sessionId c = sessionId) (conversations s))"

definition messageCount_of :: "state \<Rightarrow> objectId \<Rightarrow> int option" where
  "messageCount_of s i = map_option c_messageCount (find (\<lambda>c. c_id c = i) (conversations s))"

definition owned :: "state \<Rightarrow> objectId \<Rightarrow> nat" where
  "owned s i = length (filter (\<lambda>m. md_conversationId (m_data m) = i) (messages s))"

text \<open>The states that the service produces: \<^verbatim>\<open>_id\<close> and \<^verbatim>\<open>sessionId\<close> are unique
  (the unique indexes), and a conversation cached for a session id has the \<^verbatim>\<open>_id\<close>
  of the stored conversation with that session id (only \<^verbatim>\<open>createConversation\<close>
  and \<^verbatim>\<open>getConversation\<close> write the entry).\<close>

definition id_session :: "state \<Rightarrow> (objectId \<times> string) list" where
  "id_session s = map (\<lambda>c. (c_id c, c_sessionId c)) (conversations s)"

definition coherent :: "state \<Rightarrow> bool" where
  "coherent s =
     (distinct (map c_id (conversations s)) \<and> distinct (map c_sessionId (conversations s)) \<and>
      (\<forall>sid v t. conversation_keys (cache s) sid = Some (v, t) \<longrightarrow>
         (cc_id v, sid) \<in> set (id_session s)))"

text \<open>Every stored window has at most 50 entries.\<close>

definition bounded :: "cache \<Rightarrow> bool" where
  "bounded c = (\<forall>sid xs t. messages_keys c sid = Some (xs, t) \<longrightarrow> length xs \<le> 50)"

text \<open>Calls in sequence. An \<open>append_call\<close> holds what one \<^verbatim>\<open>addMessage\<close> call
  brings: its time, the identifiers it generates and its arguments. \<open>addMessages\<close> is
  the state after the calls when each one returned a message, and \<open>None\<close> when one
  raised. \<open>cache_appends\<close> is the same for \<^verbatim>\<open>cacheService.addMessage\<close>.\<close>

record append_call =
  ac_now :: date
  ac_messageId :: string
  ac_oid :: objectId
  ac_role :: string
  ac_content :: string
  ac_files :: "multer_file list"

fun addMessages ::
  "storage \<Rightarrow> state \<Rightarrow> string \<Rightarrow> append_call list \<Rightarrow> state option" where
  "addMessages upload s sessionId [] = Some s"
| "addMessages upload s sessionId (a # as) =
     (case addMessage upload (ac_now a) (ac_messageId a) (ac_oid a) s sessionId
             (ac_role a) (ac_content a) (ac_files a) of
        (Inl e, s1) \<Rightarrow> None
      | (Inr m, s1) \<Rightarrow> addMessages upload s1 sessionId as)"

fun cache_appends :: "cache \<Rightarrow> (date \<times> string \<times> message_data) list \<Rightarrow> cache option" where
  "cache_appends c [] = Some c"
| "cache_appends c ((now, sessionId, msg) # as) =
     (case cache_addMessage now c sessionId msg of
        (Inl e, c1) \<Rightarrow> None
      | (Inr u, c1) \<Rightarrow> cache_appends c1 as)"

text \<open>The commands of the window update as steps of their own, to interleave the
  commands of two calls of \<^verbatim>\<open>cacheService.addMessage\<close>: each command is one
  indivisible step of Redis, a call is three of them.\<close>

datatype window_command = LPUSH message_data | EXPIRE | LTRIM

fun run_command :: "date \<Rightarrow> string \<Rightarrow> cache \<Rightarrow> window_command \<Rightarrow> (error + unit) \<times> cache" where
  "run_command now sessionId c (LPUSH msg) = lpush now c sessionId msg"
| "run_command now sessionId c EXPIRE = expire now c sessionId 3600"
| "run_command now sessionId c LTRIM = ltrim now c sessionId 0 49"

fun run_commands :: "date \<Rightarrow> string \<Rightarrow> cache \<Rightarrow> window_command list \<Rightarrow> (error + unit) \<times> cache" where
  "run_commands now sessionId c [] = (Inr (), c)"
| "run_commands now sessionId c (k # ks) =
     (case run_command now sessionId c k of
        (Inl e, c1) \<Rightarrow> (Inl e, c1)
      | (Inr u, c1) \<Rightarrow> run_commands now sessionId c1 ks)"

definition addMessage_commands :: "message_data \<Rightarrow> window_command list" where
  "addMessage_commands msg = [LPUSH msg, EXPIRE, LTRIM]"

text \<open>What a command does to the live entry of the window when it is accepted.\<close>

fun entry_step ::
  "date \<Rightarrow> message_data list entry option \<Rightarrow> window_command \<Rightarrow> message_data list entry option" where
  "entry_step now e (LPUSH msg) =
     Some (case e of None \<Rightarrow> ([msg], None) | Some (xs, t) \<Rightarrow> (msg # xs, t))"
| "entry_step now e EXPIRE =
     (case e of None \<Rightarrow> None | Some (xs, t) \<Rightarrow> Some (xs, Some (now + 3600)))"
| "entry_step now e LTRIM =
     (case e of
        None \<Rightarrow> None
      | Some (xs, t) \<Rightarrow> (if take 50 xs = [] then None else Some (take 50 xs, t)))"

fun interleavings :: "'a list \<Rightarrow> 'a list \<Rightarrow> 'a list list" where
  "interleavings [] ys = [ys]"
| "interleavings xs [] = [xs]"
| "interleavings (x # xs) (y # ys) =
     map ((#) x) (interleavings xs (y # ys)) @ map ((#) y) (interleavings (x # xs) ys)"

text \<open>The state of a service that has just started.\<close>

definition empty_cache :: cache where
  "empty_cache =
     \<lparr>session_keys = Map.empty, conversation_keys = Map.empty, messages_keys = Map.empty,
      faults = []\<rparr>"

definition empty_state :: state where
  "empty_state = \<lparr>conversations = [], messages = [], cache = empty_cache\<rparr>"

text \<open>More properties of the states that the service produces: every stored message
  belongs to a stored conversation (\<open>attached\<close>); the counter of every conversation is
  the number of stored messages that it owns (\<open>counted\<close>), or at most that number
  (\<open>undercounted\<close>). \<open>steady\<close> puts \<open>coherent\<close>, \<open>counted\<close>, \<open>attached\<close> and
  \<open>bounded\<close> together for a cache that rejects no command.

  \<open>reachable\<close> are the states that the service reaches from the empty state: by its
  operations, with any arguments, any times and any outcome, and by the cache becoming
  unreachable, which sets the schedule of the rejections to come. \<open>undisturbed\<close> are
  the states reached by the operations alone, so while every cache command is accepted
  (the schedule of the empty state rejects none).\<close>

definition counted :: "state \<Rightarrow> bool" where
  "counted s = (\<forall>c \<in> set (conversations s). c_messageCount c = int (owned s (c_id c)))"

definition attached :: "state \<Rightarrow> bool" where
  "attached s =
     (\<forall>m \<in> set (messages s). md_conversationId (m_data m) \<in> set (map c_id (conversations s)))"

definition steady :: "state \<Rightarrow> bool" where
  "steady s = (coherent s \<and> counted s \<and> attached s \<and> bounded (cache s) \<and> faults (cache s) = [])"

inductive undisturbed :: "state \<Rightarrow> bool" where
  undisturbed_empty: "undisturbed empty_state"
| undisturbed_create:
    "undisturbed s \<Longrightarrow>
     undisturbed (snd (createConversation now sessionId oid s userId type metadata))"
| undisturbed_get: "undisturbed s \<Longrightarrow> undisturbed (snd (getConversation now s sessionId))"
| undisturbed_add:
    "undisturbed s \<Longrightarrow>
     undisturbed (snd (addMessage upload now messageId oid s sessionId role content files))"
| undisturbed_messages:
    "undisturbed s \<Longrightarrow> undisturbed (snd (getMessages now s sessionId page limit))"
| undisturbed_delete:
    "undisturbed s \<Longrightarrow> undisturbed (snd (deleteConversation now s sessionId userId))"

definition undercounted :: "state \<Rightarrow> bool" where
  "undercounted s =
     (\<forall>c \<in> set (conversations s). c_messageCount c \<le> int (owned s (c_id c)))"

inductive reachable :: "state \<Rightarrow> bool" where
  reachable_empty: "reachable empty_state"
| reachable_faults: "reachable s \<Longrightarrow> reachable (s\<lparr>cache := (cache s)\<lparr>faults := fs\<rparr>\<rparr>)"
| reachable_create:
    "reachable s \<Longrightarrow>
     reachable (snd (createConversation now sessionId oid s userId type metadata))"
| reachable_get: "reachable s \<Longrightarrow> reachable (snd (getConversation now s sessionId))"
| reachable_add:
    "reachable s \<Longrightarrow>
     reachable (snd (addMessage upload now messageId oid s sessionId role content files))"
| reachable_messages:
    "reachable s \<Longrightarrow> reachable (snd (getMessages now s sessionId page limit))"
| reachable_delete:
    "reachable s \<Longrightarrow> reachable (snd (deleteConversation now s sessionId userId))"

text \<open>\<open>sound\<close> is what the reachable states keep, whatever the cache rejects.\<close>

definition sound :: "state \<Rightarrow> bool" where
  "sound s = (coherent s \<and> attached s \<and> undercounted s)"

text \<open>The Store steps of \<^verbatim>\<open>addMessage\<close> as commands of their own, to interleave the
  steps of two calls. \<^verbatim>\<open>message.save()\<close> inserts one document.
  \<^verbatim>\<open>Conversation.findByIdAndUpdate(id, {lastActivity, $inc: {messageCount: 1}})\<close> is
  one update, which MongoDB applies to the stored document as one indivisible step: it adds
  1 to the counter that the document holds then, it writes no number that the caller has
  read or counted. \<open>increments_of\<close> and \<open>saves_of\<close> count the commands of a
  conversation in a list of commands.\<close>

datatype store_command = SAVE message | INC objectId date

fun run_store_command :: "state \<Rightarrow> store_command \<Rightarrow> error + state" where
  "run_store_command s (SAVE m) =
     (case save_message (messages s) m of
        Inl e \<Rightarrow> Inl e
      | Inr ms \<Rightarrow> Inr (s\<lparr>messages := ms\<rparr>))"
| "run_store_command s (INC i now) =
     Inr (s\<lparr>conversations :=
              findByIdAndUpdate i
                (\<lambda>c. c\<lparr>c_lastActivity := now, c_messageCount := c_messageCount c + 1,
                        c_updatedAt := now\<rparr>) (conversations s)\<rparr>)"

fun run_store_commands :: "state \<Rightarrow> store_command list \<Rightarrow> error + state" where
  "run_store_commands s [] = Inr s"
| "run_store_commands s (k # ks) =
     (case run_store_command s k of
        Inl e \<Rightarrow> Inl e
      | Inr s1 \<Rightarrow> run_store_commands s1 ks)"

fun increments_of :: "objectId \<Rightarrow> store_command list \<Rightarrow> nat" where
  "increments_of i [] = 0"
| "increments_of i (SAVE m # ks) = increments_of i ks"
| "increments_of i (INC j t # ks) = (if j = i then 1 else 0) + increments_of i ks"

fun saves_of :: "objectId \<Rightarrow> store_command list \<Rightarrow> nat" where
  "saves_of i [] = 0"
| "saves_of i (SAVE m # ks) = (if md_conversationId (m_data m) = i then 1 else 0) + saves_of i ks"
| "saves_of i (INC j t # ks) = saves_of i ks"

section \<open>A session, step by step\<close>

text \<open>
  User \<open>u1\<close> creates a conversation at time 100 (session \<open>S\<close>) and two messages are
  added at 101 and 102; then the owner deletes the conversation at 104. No file is
  uploaded and no cache command is rejected.
\<close>

definition no_metadata :: conv_metadata where
  "no_metadata = \<lparr>userAgent = None, ipAddress = None, language = None, platform = None\<rparr>"

definition s3 :: storage where
  "s3 =
     \<lparr>bucketName = ''bucket'', region = ''eu-west-1'', uuid_of = (\<lambda>f. ''0000''),
      accepts = (\<lambda>f. True)\<rparr>"

definition st_created :: state where
  "st_created = snd (createConversation 100 ''S'' 1 empty_state ''u1'' ''general'' no_metadata)"

definition st_one :: state where
  "st_one = snd (addMessage s3 101 ''m1'' 11 st_created ''S'' ''user'' ''hello'' [])"

definition st_two :: state where
  "st_two = snd (addMessage s3 102 ''m2'' 12 st_one ''S'' ''assistant'' ''hi'' [])"

definition st_deleted :: state where
  "st_deleted = snd (deleteConversation 104 st_two ''S'' ''u1'')"

text \<open>The two \<^verbatim>\<open>addMessage\<close> calls of the session.\<close>

definition call_m1 :: append_call where
  "call_m1 =
     \<lparr>ac_now = 101, ac_messageId = ''m1'', ac_oid = 11, ac_role = ''user'',
      ac_content = ''hello'', ac_files = []\<rparr>"

definition call_m2 :: append_call where
  "call_m2 =
     \<lparr>ac_now = 102, ac_messageId = ''m2'', ac_oid = 12, ac_role = ''assistant'',
      ac_content = ''hi'', ac_files = []\<rparr>"

text \<open>The same states when the next Redis commands are rejected as \<open>fs\<close> says.\<close>

definition with_faults :: "bool list \<Rightarrow> state \<Rightarrow> state" where
  "with_faults fs s = s\<lparr>cache := (cache s)\<lparr>faults := fs\<rparr>\<rparr>"

text \<open>The documents and cache entries of these states.\<close>

definition conv_S :: conversation where
  "conv_S =
     \<lparr>c_id = 1, c_sessionId = ''S'', c_userId = ''u1'', c_title = ''New Conversation'',
      c_type = ''general'', c_metadata = no_metadata, c_isActive = True, c_lastActivity = 100,
      c_messageCount = 0, c_createdAt = 100, c_updatedAt = 100\<rparr>"

definition data_m1 :: message_data where
  "data_m1 =
     \<lparr>md_conversationId = 1, md_sessionId = ''S'', md_messageId = ''m1'', md_role = ''user'',
      md_text = ''hello'', md_images = [], md_attachments = [], md_timestamp = 101,
      md_tokenCount = length ''hello''\<rparr>"

definition data_m2 :: message_data where
  "data_m2 =
     \<lparr>md_conversationId = 1, md_sessionId = ''S'', md_messageId = ''m2'', md_role = ''assistant'',
      md_text = ''hi'', md_images = [], md_attachments = [], md_timestamp = 102,
      md_tokenCount = length ''hi''\<rparr>"

definition data_m3 :: message_data where
  "data_m3 =
     \<lparr>md_conversationId = 1, md_sessionId = ''S'', md_messageId = ''m3'', md_role = ''user'',
      md_text = ''late'', md_images = [], md_attachments = [], md_timestamp = 105,
      md_tokenCount = length ''late''\<rparr>"

definition doc_m1 :: message where
  "doc_m1 = \<lparr>m_id = 11, m_data = data_m1, m_createdAt = 101, m_updatedAt = 101\<rparr>"

definition doc_m2 :: message where
  "doc_m2 = \<lparr>m_id = 12, m_data = data_m2, m_createdAt = 102, m_updatedAt = 102\<rparr>"

definition doc_m3 :: message where
  "doc_m3 = \<lparr>m_id = 13, m_data = data_m3, m_createdAt = 105, m_updatedAt = 105\<rparr>"

text \<open>A cache whose window for \<open>S\<close> is full (50 entries), for the update of a full
  window.\<close>

definition filler :: "nat \<Rightarrow> message_data" where
  "filler i =
     \<lparr>md_conversationId = 1, md_sessionId = ''S'', md_messageId = replicate (Suc i) (CHR ''x''),
      md_role = ''user'', md_text = [], md_images = [], md_attachments = [],
      md_timestamp = 50 + i, md_tokenCount = 0\<rparr>"

definition full_cache :: "bool list \<Rightarrow> cache" where
  "full_cache fs =
     \<lparr>session_keys = Map.empty, conversation_keys = Map.empty,
      messages_keys = [''S'' \<mapsto> (map filler (rev [0..<50]), Some 3700)], faults = fs\<rparr>"

text \<open>The state after a third \<^verbatim>\<open>addMessage\<close>, at 103, when the cache accepts the
  next command (the read of the conversation) and rejects the one after it (the
  \<^verbatim>\<open>LPUSH\<close> of the window).\<close>

definition st_uncounted :: state where
  "st_uncounted =
     snd (addMessage s3 103 ''m3'' 13 (with_faults [False, True] st_two) ''S'' ''user'' ''late'' [])"

section \<open>Basic facts\<close>

lemma consumed_fields [simp]:
  "session_keys (consumed c) = session_keys c"
  "conversation_keys (consumed c) = conversation_keys c"
  "messages_keys (consumed c) = messages_keys c"
  "faults (consumed c) = tl (faults c)"
  by (simp_all add: consumed_def)

lemma rejected_no_faults [simp]: "faults c = [] \<Longrightarrow> \<not> rejected c"
  by (simp add: rejected_def)

lemma getCachedConversation_eq:
  "getCachedConversation now c sid =
     (if rejected c then Inl CacheError else Inr (cached_now now c sid), consumed c)"
  by (simp add: getCachedConversation_def get_conversation_key_def cached_now_def)

lemma cacheConversation_eq:
  "cacheConversation now c sid v =
     (if rejected c then (Inl CacheError, consumed c)
      else (Inr (), (consumed c)\<lparr>conversation_keys :=
              (conversation_keys c)(sid \<mapsto> (v, Some (now + 3600)))\<rparr>))"
  by (simp add: cacheConversation_def setex_conversation_key_def)

lemma redis_range_0_49: "redis_range xs 0 49 = take 50 xs"
  by (cases xs)
    (auto simp add: redis_range_def Let_def nat_add_distrib min_def
      intro!: arg_cong2[where f=take])

lemma getConversation_hit:
  "\<not> rejected (cache s) \<Longrightarrow> cached_now now (cache s) sid = Some v \<Longrightarrow>
   getConversation now s sid = (Inr (Some v), s\<lparr>cache := consumed (cache s)\<rparr>)"
  by (simp add: getConversation_def getCachedConversation_eq)

lemma getConversation_None:
  "getConversation now s sid = (Inr None, s1) \<Longrightarrow>
   s1 = s\<lparr>cache := consumed (cache s)\<rparr> \<and> cached_now now (cache s) sid = None \<and>
   findOne_active (conversations s) sid = None"
  by (auto simp add: getConversation_def getCachedConversation_eq cacheConversation_eq Let_def
      split: option.splits if_splits)

text \<open>When no command is rejected, \<^verbatim>\<open>cacheService.addMessage\<close> leaves the new
  message in front of the live window, cut to 50 entries, with a fresh expiry.\<close>

lemma cache_addMessage_accepted:
  "faults c = [] \<Longrightarrow>
   cache_addMessage now c sid msg =
     (Inr (), c\<lparr>messages_keys :=
        (messages_keys c)(sid \<mapsto> (take 50 (msg # window now c sid), Some (now + 3600)))\<rparr>)"
  by (auto simp add: cache_addMessage_def lpush_def expire_def ltrim_def redis_range_0_49
      window_def live_def rejected_def consumed_def split: option.splits)

subsection \<open>The states of the session\<close>

lemma st_created_eq:
  "st_created =
     \<lparr>conversations = [conv_S], messages = [],
      cache = \<lparr>session_keys = Map.empty,
               conversation_keys = [''S'' \<mapsto> (projection conv_S, Some 3700)],
               messages_keys = Map.empty, faults = []\<rparr>\<rparr>"
  by (simp add: st_created_def createConversation_def save_conversation_def
      valid_conversation_def cacheConversation_eq empty_state_def empty_cache_def conv_S_def
      projection_def consumed_def rejected_def Let_def)

lemma st_one_eq:
  "st_one =
     \<lparr>conversations =
        [conv_S\<lparr>c_lastActivity := 101, c_messageCount := 1, c_updatedAt := 101\<rparr>],
      messages = [doc_m1],
      cache = \<lparr>session_keys = Map.empty,
               conversation_keys = [''S'' \<mapsto> (projection conv_S, Some 3700)],
               messages_keys = [''S'' \<mapsto> ([data_m1], Some 3701)], faults = []\<rparr>\<rparr>"
  by (simp add: st_one_def st_created_eq addMessage_def getConversation_hit cached_now_def live_def
      consumed_def save_message_def valid_message_def cache_addMessage_accepted window_def
      projection_def conv_S_def doc_m1_def data_m1_def Let_def)

lemma st_two_eq:
  "st_two =
     \<lparr>conversations =
        [conv_S\<lparr>c_lastActivity := 102, c_messageCount := 2, c_updatedAt := 102\<rparr>],
      messages = [doc_m1, doc_m2],
      cache = \<lparr>session_keys = Map.empty,
               conversation_keys = [''S'' \<mapsto> (projection conv_S, Some 3700)],
               messages_keys = [''S'' \<mapsto> ([data_m2, data_m1], Some 3702)], faults = []\<rparr>\<rparr>"
  by (simp add: st_two_def st_one_eq addMessage_def getConversation_hit cached_now_def live_def
      consumed_def save_message_def valid_message_def cache_addMessage_accepted window_def
      projection_def conv_S_def doc_m1_def data_m1_def doc_m2_def data_m2_def Let_def)

lemma st_deleted_eq:
  "st_deleted =
     \<lparr>conversations =
        [conv_S\<lparr>c_isActive := False, c_lastActivity := 102, c_messageCount := 2,
                c_updatedAt := 104\<rparr>],
      messages = [doc_m1, doc_m2],
      cache = \<lparr>session_keys = Map.empty,
               conversation_keys = [''S'' \<mapsto> (projection conv_S, Some 3700)],
               messages_keys = [''S'' \<mapsto> ([data_m2, data_m1], Some 3702)], faults = []\<rparr>\<rparr>"
  by (simp add: st_deleted_def st_two_eq deleteConversation_def findOne_owned_def conv_S_def
      deleteSession_def del_session_key_def rejected_def consumed_def Let_def)

section \<open>The order of the messages that getMessages returns\<close>

text \<open>The store path returns the messages oldest first: it sorts by
  \<^verbatim>\<open>createdAt\<close> descending, skips, takes and reverses.\<close>

lemma sorted_desc_sort_desc: "sorted_wrt (\<lambda>x y. y \<le> x) (map f (sort_desc f xs))"
  by (simp add: sort_desc_def sorted_wrt_rev flip: rev_map)

lemma skip_limit_sorted:
  "skip_limit xs skip limit = Inr ys \<Longrightarrow> sorted_wrt P (map f xs) \<Longrightarrow> sorted_wrt P (map f ys)"
  by (auto simp add: skip_limit_def simp flip: take_map drop_map split: if_splits)

lemma getMessages_store_ascending:
  assumes "getMessages_store now s sessionId page limit = (Inr vs, s')"
  shows "sorted (map sent_at vs)"
proof -
  have "sorted (map sent_at (map Stored (rev ms)))"
    if "skip_limit (sort_desc m_createdAt xs) k l = Inr ms" for xs ms k l
  proof -
    from skip_limit_sorted [OF that sorted_desc_sort_desc]
    have "sorted_wrt (\<lambda>x y. y \<le> x) (map m_createdAt ms)" .
    then have "sorted (rev (map m_createdAt ms))"
      by (simp add: sorted_wrt_rev)
    then show ?thesis
      by (simp add: rev_map comp_def)
  qed
  with assms show ?thesis
    by (auto simp add: getMessages_store_def split: prod.splits sum.splits option.splits)
qed

text \<open>
  C1: the claim is that \<^verbatim>\<open>getMessages\<close> returns the messages oldest first whether they
  come from the cache window or from the store. After the two messages of the session
  (sent at 101 and 102), \<^verbatim>\<open>getMessages(S, 1, 10)\<close> is served from the cache window
  and returns the newest first, \<open>m2\<close> then \<open>m1\<close>: \<^verbatim>\<open>LPUSH\<close> puts each message in
  front and \<^verbatim>\<open>getRecentMessages\<close> returns the range as it is stored. The same
  request with limit 11 goes to the store and returns \<open>m1\<close> then \<open>m2\<close>.
\<close>

theorem getMessages_cache_newest_first:
  "fst (getMessages 103 st_two ''S'' 1 10) = Inr [Cached data_m2, Cached data_m1] \<and>
   map_sum id (map sent_at) (fst (getMessages 103 st_two ''S'' 1 10)) = Inr [102, 101] \<and>
   fst (getMessages 103 st_two ''S'' 1 11) = Inr [Stored doc_m1, Stored doc_m2] \<and>
   map_sum id (map sent_at) (fst (getMessages 103 st_two ''S'' 1 11)) = Inr [101, 102]"
  by (simp add: getMessages_def getMessages_store_def getRecentMessages_def lrange_def st_two_eq
      rejected_def live_def redis_range_def getConversation_hit cached_now_def
      skip_limit_def sort_desc_def doc_m1_def doc_m2_def data_m1_def data_m2_def projection_def
      conv_S_def)

section \<open>After deleteConversation\<close>

text \<open>\<^verbatim>\<open>deleteConversation\<close> never touches the cached conversation or the window of
  the session: a conversation that was cached stays served by \<^verbatim>\<open>getConversation\<close>
  after it has been deleted, until the entry expires.\<close>

lemma deleteConversation_cache_kept:
  "conversation_keys (cache (snd (deleteConversation now s sessionId userId))) =
     conversation_keys (cache s)"
  "messages_keys (cache (snd (deleteConversation now s sessionId userId))) =
     messages_keys (cache s)"
  by (simp_all add: deleteConversation_def deleteSession_def del_session_key_def Let_def
      split: option.splits)

lemma getConversation_after_delete:
  assumes "deleteConversation now s sessionId userId = (Inr True, s1)"
    and "cached_now now' (cache s) sessionId = Some v" and "\<not> rejected (cache s1)"
  shows "fst (getConversation now' s1 sessionId) = Inr (Some v)"
proof -
  from deleteConversation_cache_kept(1) [of now s sessionId userId] assms(1)
  have "conversation_keys (cache s1) = conversation_keys (cache s)" by simp
  with assms(2) have "cached_now now' (cache s1) sessionId = Some v"
    by (simp add: cached_now_def)
  with assms(3) show ?thesis
    by (simp add: getConversation_hit)
qed

text \<open>
  C4: the claim is that after a successful \<^verbatim>\<open>deleteConversation\<close> the conversation is
  inactive, \<^verbatim>\<open>getConversation\<close> reports it as not found, \<^verbatim>\<open>getUserConversations\<close>
  leaves it out and its messages stay in the store, the cache entries of the session
  having been purged. In the session above the deletion succeeds, the conversation is
  inactive in the store, the listing is empty and the messages are kept; but
  \<^verbatim>\<open>deleteSession\<close> deletes the key \<^verbatim>\<open>session:S\<close> only, so the entry
  \<^verbatim>\<open>conversation:S\<close> and the window \<^verbatim>\<open>messages:S\<close> are still there, and
  \<^verbatim>\<open>getConversation\<close> returns the cached conversation.
\<close>

theorem deleted_conversation_still_served:
  "fst (deleteConversation 104 st_two ''S'' ''u1'') = Inr True \<and>
   isActive_of st_deleted ''S'' = Some False \<and>
   findOne_active (conversations st_deleted) ''S'' = None \<and>
   fst (getConversation 105 st_deleted ''S'') = Inr (Some (projection conv_S)) \<and>
   cached_now 105 (cache st_deleted) ''S'' = Some (projection conv_S) \<and>
   window 105 (cache st_deleted) ''S'' = [data_m2, data_m1] \<and>
   getUserConversations st_deleted ''u1'' 1 20 = Inr [] \<and>
   messages st_deleted = [doc_m1, doc_m2]"
  by (simp add: st_deleted_eq st_two_eq deleteConversation_def findOne_owned_def deleteSession_def
      del_session_key_def rejected_def isActive_of_def findOne_active_def getConversation_hit
      cached_now_def live_def window_def getUserConversations_def skip_limit_def sort_desc_def
      conv_S_def Let_def)

section \<open>addMessage without an active conversation\<close>

text \<open>When \<^verbatim>\<open>addMessage\<close> does raise \<open>NotFound\<close>, the cache had no entry for the
  session, the store had no active conversation for it, and nothing was written: the
  only change is that the cache has answered one command. And it raises \<open>NotFound\<close>
  whenever the cache answers and neither has the conversation.\<close>

lemma upload_files_error: "upload_files upload folder files images attachments = Inl e \<Longrightarrow> e = UploadFailed"
  by (induction files arbitrary: images attachments)
    (auto simp add: uploadFile_def Let_def split: sum.splits if_splits)

lemma save_message_error: "save_message ms m = Inl e \<Longrightarrow> e = ValidationError \<or> e = DuplicateKey"
  by (auto simp add: save_message_def split: if_splits)

lemma cache_addMessage_error: "cache_addMessage now c sid d = (Inl e, c') \<Longrightarrow> e = CacheError"
  by (auto simp add: cache_addMessage_def lpush_def expire_def ltrim_def
      split: option.splits if_splits)

lemma getConversation_error: "getConversation now s sid = (Inl e, s') \<Longrightarrow> e = CacheError"
  by (auto simp add: getConversation_def getCachedConversation_eq cacheConversation_eq Let_def
      split: option.splits if_splits)

lemma addMessage_NotFound_unchanged:
  assumes "addMessage upload now mid oid s sid role content files = (Inl NotFound, s')"
  shows "s' = s\<lparr>cache := consumed (cache s)\<rparr> \<and> cached_now now (cache s) sid = None \<and>
     findOne_active (conversations s) sid = None"
proof -
  obtain r s1 where g: "getConversation now s sid = (r, s1)"
    by (cases "getConversation now s sid")
  have "r = Inr None"
  proof (rule ccontr)
    assume n: "r \<noteq> Inr None"
    show False
    proof (cases r)
      case (Inl e)
      with g assms getConversation_error [of now s sid e s1] show False
        by (simp add: addMessage_def)
    next
      case (Inr ov)
      with n obtain v where v: "ov = Some v" by (cases ov) auto
      from assms g Inr v show False
        by (auto simp add: addMessage_def Let_def split: sum.splits prod.splits
            dest: upload_files_error save_message_error cache_addMessage_error)
    qed
  qed
  with g assms getConversation_None [of now s sid s1] show ?thesis
    by (simp add: addMessage_def)
qed

lemma addMessage_not_found:
  "\<not> rejected (cache s) \<Longrightarrow> cached_now now (cache s) sid = None \<Longrightarrow>
   findOne_active (conversations s) sid = None \<Longrightarrow>
   addMessage upload now mid oid s sid role content files =
     (Inl NotFound, s\<lparr>cache := consumed (cache s)\<rparr>)"
  by (simp add: addMessage_def getConversation_def getCachedConversation_eq)

text \<open>
  C6: the claim is that \<^verbatim>\<open>addMessage\<close> on a session id with no active conversation
  fails with \<open>NotFound\<close> and writes nothing. After the deletion above the store has no
  active conversation for \<open>S\<close>, yet \<^verbatim>\<open>addMessage\<close> at 105 finds the cached
  conversation, saves a third message, pushes it on the window and increments
  \<^verbatim>\<open>messageCount\<close> of the inactive conversation.
\<close>

theorem addMessage_after_delete_succeeds:
  "findOne_active (conversations st_deleted) ''S'' = None \<and>
   fst (addMessage s3 105 ''m3'' 13 st_deleted ''S'' ''user'' ''late'' []) = Inr doc_m3 \<and>
   messages (snd (addMessage s3 105 ''m3'' 13 st_deleted ''S'' ''user'' ''late'' [])) =
     [doc_m1, doc_m2, doc_m3] \<and>
   window 105 (cache (snd (addMessage s3 105 ''m3'' 13 st_deleted ''S'' ''user'' ''late'' [])))
     ''S'' = [data_m3, data_m2, data_m1] \<and>
   messageCount_of (snd (addMessage s3 105 ''m3'' 13 st_deleted ''S'' ''user'' ''late'' [])) 1 =
     Some 3"
  by (simp add: st_deleted_eq findOne_active_def addMessage_def getConversation_hit cached_now_def
      live_def consumed_def save_message_def valid_message_def cache_addMessage_accepted window_def
      projection_def conv_S_def doc_m1_def data_m1_def doc_m2_def data_m2_def doc_m3_def
      data_m3_def messageCount_of_def Let_def)

section \<open>getConversation: cache first, then the store\<close>

text \<open>
  C2, as the claim states it: on a cache error \<^verbatim>\<open>getConversation\<close> queries the store.
  It does not: with the conversation of session \<open>S\<close> active in the store, a rejected
  \<^verbatim>\<open>GET\<close> rejects the call.
\<close>

theorem getConversation_cache_error_propagates:
  "findOne_active (conversations (with_faults [True] st_created)) ''S'' = Some conv_S \<and>
   rejected (cache (with_faults [True] st_created)) \<and>
   fst (getConversation 105 (with_faults [True] st_created) ''S'') = Inl CacheError"
  by (simp add: with_faults_def st_created_eq findOne_active_def conv_S_def rejected_def
      getConversation_def getCachedConversation_eq)

text \<open>
  C2, amended: \<^verbatim>\<open>getConversation\<close> consults the cache first. A rejected cache command
  rejects the call with the cache error, whatever the store holds, and changes nothing
  (it is not reported as not found). A live cache entry is returned as it is. On a cache
  miss the store is queried by session id and \<^verbatim>\<open>isActive = true\<close>: a hit is written
  to the cache with an expiry 3600 seconds away and returned (when the cache rejects the
  write, the call is rejected with the cache error); a miss gives \<^verbatim>\<open>null\<close> and
  changes nothing. \<^verbatim>\<open>null\<close> is returned exactly when the cache answered with a
  miss and the store has no active conversation for the session id.
\<close>

theorem getConversation_read_through:
  "(rejected (cache s) \<longrightarrow>
      getConversation now s sessionId = (Inl CacheError, s\<lparr>cache := consumed (cache s)\<rparr>)) \<and>
   (\<not> rejected (cache s) \<and> cached_now now (cache s) sessionId = Some v \<longrightarrow>
      getConversation now s sessionId = (Inr (Some v), s\<lparr>cache := consumed (cache s)\<rparr>)) \<and>
   (\<not> rejected (cache s) \<and> cached_now now (cache s) sessionId = None \<and>
    findOne_active (conversations s) sessionId = None \<longrightarrow>
      getConversation now s sessionId = (Inr None, s\<lparr>cache := consumed (cache s)\<rparr>)) \<and>
   (\<not> rejected (cache s) \<and> cached_now now (cache s) sessionId = None \<and>
    findOne_active (conversations s) sessionId = Some db \<and> \<not> rejected (consumed (cache s)) \<longrightarrow>
      fst (getConversation now s sessionId) = Inr (Some (projection db)) \<and>
      conversation_keys (cache (snd (getConversation now s sessionId))) sessionId =
        Some (projection db, Some (now + 3600))) \<and>
   (\<not> rejected (cache s) \<and> cached_now now (cache s) sessionId = None \<and>
    findOne_active (conversations s) sessionId = Some db \<and> rejected (consumed (cache s)) \<longrightarrow>
      fst (getConversation now s sessionId) = Inl CacheError) \<and>
   ((fst (getConversation now s sessionId) = Inr None) =
      (\<not> rejected (cache s) \<and> cached_now now (cache s) sessionId = None \<and>
       findOne_active (conversations s) sessionId = None))"
  by (auto simp add: getConversation_def getCachedConversation_eq cacheConversation_eq Let_def
      projection_def split: option.splits)

text \<open>The cases at work: a rejected read, a cache hit at 105, a miss in both for the
  empty state, and at 3700, when the entry written at 100 has expired, a store hit that
  is cached again until 7300, or rejected when the cache rejects the write.\<close>

theorem getConversation_read_through_witness:
  "rejected (cache (with_faults [True] st_created)) \<and>
   fst (getConversation 105 (with_faults [True] st_created) ''S'') = Inl CacheError \<and>
   \<not> rejected (cache st_created) \<and>
   cached_now 105 (cache st_created) ''S'' = Some (projection conv_S) \<and>
   fst (getConversation 105 st_created ''S'') = Inr (Some (projection conv_S)) \<and>
   cached_now 105 (cache empty_state) ''S'' = None \<and>
   findOne_active (conversations empty_state) ''S'' = None \<and>
   fst (getConversation 105 empty_state ''S'') = Inr None \<and>
   cached_now 3700 (cache st_created) ''S'' = None \<and>
   findOne_active (conversations st_created) ''S'' = Some conv_S \<and>
   fst (getConversation 3700 st_created ''S'') = Inr (Some (projection conv_S)) \<and>
   conversation_keys (cache (snd (getConversation 3700 st_created ''S''))) ''S'' =
     Some (projection conv_S, Some 7300) \<and>
   \<not> rejected (cache (with_faults [False, True] st_created)) \<and>
   rejected (consumed (cache (with_faults [False, True] st_created))) \<and>
   fst (getConversation 3700 (with_faults [False, True] st_created) ''S'') = Inl CacheError"
  using getConversation_read_through [of "with_faults [True] st_created" 105 "''S''"]
    getConversation_read_through [of st_created 105 "''S''" "projection conv_S"]
    getConversation_read_through [of empty_state 105 "''S''"]
    getConversation_read_through [of st_created 3700 "''S''" _ conv_S]
    getConversation_read_through [of "with_faults [False, True] st_created" 3700 "''S''" _ conv_S]
  by (simp add: with_faults_def st_created_eq empty_state_def empty_cache_def rejected_def
      cached_now_def live_def findOne_active_def conv_S_def)

section \<open>deleteConversation\<close>

lemma findByIdAndUpdate_map:
  "(\<And>c. g (f c) = g c) \<Longrightarrow> map g (findByIdAndUpdate i f cs) = map g cs"
  by (induction cs) auto

lemma find_findByIdAndUpdate:
  "distinct (map c_id cs) \<Longrightarrow> find P cs = Some c \<Longrightarrow> (\<And>x. P (f x) = P x) \<Longrightarrow>
   find P (findByIdAndUpdate (c_id c) f cs) = Some (f c)"
proof (induction cs)
  case Nil
  then show ?case by simp
next
  case (Cons x xs)
  show ?case
  proof (cases "P x")
    case True
    with Cons.prems show ?thesis by simp
  next
    case False
    with Cons.prems have c: "find P xs = Some c" by simp
    then have "c \<in> set xs" by (auto simp add: find_Some_iff)
    with Cons.prems(1) have "c_id x \<noteq> c_id c" by auto
    with False Cons c show ?thesis by simp
  qed
qed

lemma deleteSession_eq:
  "deleteSession c sid =
     (if rejected c then (Inl CacheError, consumed c)
      else (Inr (), (consumed c)\<lparr>session_keys := (session_keys c)(sid := None)\<rparr>))"
  by (simp add: deleteSession_def del_session_key_def)



text \<open>
  C3, as the claim states it: \<^verbatim>\<open>deleteConversation\<close> reports \<open>Forbidden\<close>, an error
  distinct from \<open>NotFound\<close>, when the conversation exists and belongs to another user.
  The code has one query, \<^verbatim>\<open>findOne({ sessionId, userId })\<close>, and one error: the
  conversation of \<open>S\<close> belongs to \<open>u1\<close>, and \<open>u2\<close> deleting it gets the same
  \<open>NotFound\<close> as for a session \<open>T\<close> that does not exist; the state is unchanged.
\<close>

theorem deleteConversation_other_owner_not_found:
  "owner_of st_two ''S'' = Some ''u1'' \<and>
   deleteConversation 104 st_two ''S'' ''u2'' = (Inl NotFound, st_two) \<and>
   owner_of st_two ''T'' = None \<and>
   deleteConversation 104 st_two ''T'' ''u2'' = (Inl NotFound, st_two)"
  by (simp add: owner_of_def st_two_eq deleteConversation_def findOne_owned_def conv_S_def)

text \<open>
  C3, amended: \<^verbatim>\<open>deleteConversation\<close> reports \<open>NotFound\<close> and changes nothing when
  no conversation has both the session id and the user id, which is the case when the
  session id is unknown and also when the conversation belongs to another user. When a
  conversation has both, it is set inactive in the store (the messages are untouched),
  and the call returns \<^verbatim>\<open>true\<close> unless the cache rejects the \<^verbatim>\<open>DEL\<close>.
\<close>

theorem deleteConversation_outcome:
  "distinct (map c_id (conversations s)) \<Longrightarrow>
   (findOne_owned (conversations s) sessionId userId = None \<longrightarrow>
      deleteConversation now s sessionId userId = (Inl NotFound, s)) \<and>
   (findOne_owned (conversations s) sessionId userId = Some c \<longrightarrow>
      fst (deleteConversation now s sessionId userId) =
        (if rejected (cache s) then Inl CacheError else Inr True) \<and>
      findOne_owned (conversations (snd (deleteConversation now s sessionId userId)))
        sessionId userId = Some (c\<lparr>c_isActive := False, c_updatedAt := now\<rparr>) \<and>
      messages (snd (deleteConversation now s sessionId userId)) = messages s) \<and>
   ((findOne_owned (conversations s) sessionId userId = None) =
      (\<forall>x \<in> set (conversations s). c_sessionId x = sessionId \<longrightarrow> c_userId x \<noteq> userId))"
proof (intro conjI impI)
  assume d: "distinct (map c_id (conversations s))"
  show "findOne_owned (conversations s) sessionId userId = None \<Longrightarrow>
      deleteConversation now s sessionId userId = (Inl NotFound, s)"
    by (simp add: deleteConversation_def)
  show "(findOne_owned (conversations s) sessionId userId = None) =
      (\<forall>x \<in> set (conversations s). c_sessionId x = sessionId \<longrightarrow> c_userId x \<noteq> userId)"
    by (auto simp add: findOne_owned_def find_None_iff)
  assume c: "findOne_owned (conversations s) sessionId userId = Some c"
  show "fst (deleteConversation now s sessionId userId) =
        (if rejected (cache s) then Inl CacheError else Inr True)"
    using c by (simp add: deleteConversation_def deleteSession_eq Let_def)
  show "messages (snd (deleteConversation now s sessionId userId)) = messages s"
    using c by (simp add: deleteConversation_def deleteSession_eq Let_def)
  have "find (\<lambda>x. c_sessionId x = sessionId \<and> c_userId x = userId)
          (findByIdAndUpdate (c_id c) (\<lambda>x. x\<lparr>c_isActive := False, c_updatedAt := now\<rparr>)
             (conversations s)) = Some (c\<lparr>c_isActive := False, c_updatedAt := now\<rparr>)"
    using d c by (intro find_findByIdAndUpdate) (simp_all add: findOne_owned_def)
  then show "findOne_owned (conversations (snd (deleteConversation now s sessionId userId)))
        sessionId userId = Some (c\<lparr>c_isActive := False, c_updatedAt := now\<rparr>)"
    using c by (simp add: deleteConversation_def deleteSession_eq Let_def findOne_owned_def)
qed

theorem deleteConversation_outcome_witness:
  "distinct (map c_id (conversations st_two)) \<and>
   findOne_owned (conversations st_two) ''S'' ''u2'' = None \<and>
   deleteConversation 104 st_two ''S'' ''u2'' = (Inl NotFound, st_two) \<and>
   findOne_owned (conversations st_two) ''S'' ''u1'' =
     Some (conv_S\<lparr>c_lastActivity := 102, c_messageCount := 2, c_updatedAt := 102\<rparr>) \<and>
   fst (deleteConversation 104 st_two ''S'' ''u1'') = Inr True \<and>
   findOne_owned (conversations (snd (deleteConversation 104 st_two ''S'' ''u1''))) ''S'' ''u1'' =
     Some (conv_S\<lparr>c_isActive := False, c_lastActivity := 102, c_messageCount := 2,
             c_updatedAt := 104\<rparr>)"
  using deleteConversation_outcome [of st_two "''S''" "''u2''" 104]
    deleteConversation_outcome [of st_two "''S''" "''u1''" 104
      "conv_S\<lparr>c_lastActivity := 102, c_messageCount := 2, c_updatedAt := 102\<rparr>"]
  by (simp add: st_two_eq findOne_owned_def conv_S_def rejected_def)



section \<open>getMessages served from the cache window\<close>

lemma redis_range_Nil: "redis_range [] start stop = []"
  by (simp add: redis_range_def Let_def)

lemma redis_range_front:
  "redis_range xs 0 (limit - 1) =
     (if xs = [] \<or> limit \<le> - int (length xs) then []
      else take (nat (if limit \<le> 0 then int (length xs) + limit else limit)) xs)"
  by (auto simp add: redis_range_def Let_def nat_add_distrib intro!: arg_cong2[where f=take])

text \<open>
  C9, as the claim states it: for every limit up to 10, a non-empty window makes
  \<^verbatim>\<open>getMessages\<close> with page 1 return cached entries and never report
  \<open>NotFound\<close>. A negative limit makes \<^verbatim>\<open>LRANGE 0 (limit - 1)\<close> stop before the end
  of the list: at 3700 the window of the deleted conversation holds two entries, and
  with limit \<open>-2\<close> the range is empty, the call goes on to \<^verbatim>\<open>getConversation\<close>
  and reports \<open>NotFound\<close>.
\<close>

theorem getMessages_negative_limit_not_found:
  "window 3700 (cache st_deleted) ''S'' = [data_m2, data_m1] \<and>
   \<not> rejected (cache st_deleted) \<and>
   fst (getMessages 3700 st_deleted ''S'' 1 (- 2)) = Inl NotFound"
  by (simp add: st_deleted_eq window_def live_def rejected_def getMessages_def
      getRecentMessages_def lrange_def redis_range_def getMessages_store_def getConversation_def
      getCachedConversation_eq cached_now_def findOne_active_def conv_S_def)

text \<open>
  C9, amended: when the window of the session is not empty and the cache accepts the
  \<^verbatim>\<open>LRANGE\<close>, \<^verbatim>\<open>getMessages\<close> with page 1 and a limit that is at most 10 and
  more than minus the length of the window (every limit from 0 to 10 is) returns cached
  entries: the first \<open>limit\<close> of them for a positive limit, all of them but the last
  \<open>-limit\<close> for a limit that is not positive. The result and the state after the call
  do not depend on the conversations or the messages of the store, and the call does not
  report \<open>NotFound\<close>, also for a conversation that is inactive or absent in the store.
\<close>

theorem getMessages_window_served:
  "\<not> rejected (cache s) \<Longrightarrow> window now (cache s) sessionId \<noteq> [] \<Longrightarrow> limit \<le> 10 \<Longrightarrow>
   - int (length (window now (cache s) sessionId)) < limit \<Longrightarrow>
   getMessages now s sessionId 1 limit =
     (Inr (map Cached
             (take (nat (if limit \<le> 0 then int (length (window now (cache s) sessionId)) + limit
                         else limit))
                (window now (cache s) sessionId))),
      s\<lparr>cache := consumed (cache s)\<rparr>)"
proof -
  assume ok: "\<not> rejected (cache s)" and w: "window now (cache s) sessionId \<noteq> []"
    and l: "limit \<le> 10" "- int (length (window now (cache s) sessionId)) < limit"
  define served where
    "served = take (nat (if limit \<le> 0 then int (length (window now (cache s) sessionId)) + limit
                         else limit)) (window now (cache s) sessionId)"
  have served: "served \<noteq> []"
    using w l by (auto simp add: served_def)
  have "lrange now (cache s) sessionId 0 (limit - 1) =
      (Inr (redis_range (window now (cache s) sessionId) 0 (limit - 1)), consumed (cache s))"
    using ok by (simp add: lrange_def window_def redis_range_Nil split: option.splits)
  with w l(2) have "getRecentMessages now (cache s) sessionId limit = (Inr served, consumed (cache s))"
    by (simp add: getRecentMessages_def redis_range_front served_def)
  with served l(1) show ?thesis
    unfolding served_def [symmetric] by (simp add: getMessages_def)
qed

text \<open>At 3700 the conversation of \<open>S\<close> is inactive in the store and its cache entry has
  expired; the window is served all the same, for the limits 10, 1, 0 and \<open>-1\<close>.\<close>

theorem getMessages_window_served_witness:
  "\<not> rejected (cache st_deleted) \<and> window 3700 (cache st_deleted) ''S'' = [data_m2, data_m1] \<and>
   findOne_active (conversations st_deleted) ''S'' = None \<and>
   cached_now 3700 (cache st_deleted) ''S'' = None \<and>
   fst (getMessages 3700 st_deleted ''S'' 1 10) = Inr [Cached data_m2, Cached data_m1] \<and>
   fst (getMessages 3700 st_deleted ''S'' 1 1) = Inr [Cached data_m2] \<and>
   fst (getMessages 3700 st_deleted ''S'' 1 0) = Inr [Cached data_m2, Cached data_m1] \<and>
   fst (getMessages 3700 st_deleted ''S'' 1 (- 1)) = Inr [Cached data_m2]"
  using getMessages_window_served [of st_deleted 3700 "''S''" 10]
    getMessages_window_served [of st_deleted 3700 "''S''" 1]
    getMessages_window_served [of st_deleted 3700 "''S''" 0]
    getMessages_window_served [of st_deleted 3700 "''S''" "- 1"]
  by (simp add: st_deleted_eq rejected_def window_def live_def findOne_active_def conv_S_def
      cached_now_def)

section \<open>The window update is three commands\<close>

lemma cache_addMessage_commands:
  "cache_addMessage now c sid msg = run_commands now sid c (addMessage_commands msg)"
  by (auto simp add: cache_addMessage_def addMessage_commands_def split: prod.splits sum.splits)

lemma run_command_accepted:
  assumes "faults c = []"
  shows "fst (run_command now sid c k) = Inr ()"
    and "faults (snd (run_command now sid c k)) = []"
    and "live now (messages_keys (snd (run_command now sid c k)) sid) =
           entry_step now (live now (messages_keys c sid)) k"
  using assms
  by (cases k; simp add: lpush_def expire_def ltrim_def redis_range_0_49 live_def
        split: option.splits)+

lemma run_commands_accepted:
  "faults c = [] \<Longrightarrow>
   fst (run_commands now sid c ks) = Inr () \<and>
   faults (snd (run_commands now sid c ks)) = [] \<and>
   live now (messages_keys (snd (run_commands now sid c ks)) sid) =
     foldl (entry_step now) (live now (messages_keys c sid)) ks"
proof (induction ks arbitrary: c)
  case Nil
  then show ?case by simp
next
  case (Cons k ks)
  obtain c1 where c1: "run_command now sid c k = (Inr (), c1)"
    using run_command_accepted(1) [OF Cons.prems, of now sid k]
    by (cases "run_command now sid c k") auto
  with run_command_accepted(2,3) [OF Cons.prems, of now sid k]
  have "faults c1 = []"
    and "live now (messages_keys c1 sid) = entry_step now (live now (messages_keys c sid)) k"
    by simp_all
  with Cons.IH [of c1] c1 show ?case by simp
qed



lemma interleaved_entry:
  "ks \<in> set (interleavings (addMessage_commands a) (addMessage_commands b)) \<Longrightarrow>
   foldl (entry_step now) e ks =
     Some (take 50 (a # b # (case e of None \<Rightarrow> [] | Some (xs, t) \<Rightarrow> xs)), Some (now + 3600)) \<or>
   foldl (entry_step now) e ks =
     Some (take 50 (b # a # (case e of None \<Rightarrow> [] | Some (xs, t) \<Rightarrow> xs)), Some (now + 3600))"
  by (cases e) (auto simp add: addMessage_commands_def)

text \<open>
  C8, as the claim states it: the update of the window on an append (push, trim, refresh
  of the expiry) is one indivisible cache operation, never separate calls. The code
  awaits \<^verbatim>\<open>LPUSH\<close>, then \<^verbatim>\<open>EXPIRE\<close>, then \<^verbatim>\<open>LTRIM\<close>. With a full window of
  50 entries that expires at 3700, an append at 200 whose \<^verbatim>\<open>EXPIRE\<close> is rejected
  fails, and leaves the push done: the window has 51 entries, it is not trimmed and its
  expiry is not refreshed.
\<close>

theorem cache_addMessage_partial_update:
  "length (window 200 (full_cache [False, True]) ''S'') = 50 \<and>
   window_expiry 200 (full_cache [False, True]) ''S'' = Some 3700 \<and>
   fst (cache_addMessage 200 (full_cache [False, True]) ''S'' data_m3) = Inl CacheError \<and>
   window 200 (snd (cache_addMessage 200 (full_cache [False, True]) ''S'' data_m3)) ''S'' =
     data_m3 # window 200 (full_cache [False, True]) ''S'' \<and>
   length (window 200 (snd (cache_addMessage 200 (full_cache [False, True]) ''S'' data_m3)) ''S'') =
     51 \<and>
   window_expiry 200 (snd (cache_addMessage 200 (full_cache [False, True]) ''S'' data_m3)) ''S'' =
     Some 3700"
  by (simp add: cache_addMessage_def lpush_def expire_def rejected_def consumed_def
      full_cache_def window_def window_expiry_def live_def)

text \<open>
  C8, amended: the update of the window on an append is composed in the client of three
  separate cache commands, issued one after the other: \<^verbatim>\<open>LPUSH\<close> to the front,
  \<^verbatim>\<open>EXPIRE\<close> 3600, \<^verbatim>\<open>LTRIM\<close> 0 49; a rejected command ends the call and leaves
  what the commands before it did. When the three are accepted, the window is the new
  message in front of the entries that were there, cut to the 50 most recent, and it
  expires 3600 seconds later. When the commands of two appends to the same session are
  interleaved in any order and all accepted (at one time \<open>now\<close>), the window ends with
  both messages in front, each once, in one of the two orders, followed by the entries
  that were there, cut to 50: no entry is duplicated or dropped by the interleaving.
\<close>

theorem window_update_three_commands:
  "cache_addMessage now c sessionId msg = run_commands now sessionId c [LPUSH msg, EXPIRE, LTRIM] \<and>
   (faults c = [] \<longrightarrow>
      fst (cache_addMessage now c sessionId msg) = Inr () \<and>
      window now (snd (cache_addMessage now c sessionId msg)) sessionId =
        take 50 (msg # window now c sessionId) \<and>
      window_expiry now (snd (cache_addMessage now c sessionId msg)) sessionId =
        Some (now + 3600)) \<and>
   (faults c = [] \<and>
    ks \<in> set (interleavings [LPUSH a, EXPIRE, LTRIM] [LPUSH b, EXPIRE, LTRIM]) \<longrightarrow>
      fst (run_commands now sessionId c ks) = Inr () \<and>
      window_expiry now (snd (run_commands now sessionId c ks)) sessionId = Some (now + 3600) \<and>
      (window now (snd (run_commands now sessionId c ks)) sessionId =
         take 50 (a # b # window now c sessionId) \<or>
       window now (snd (run_commands now sessionId c ks)) sessionId =
         take 50 (b # a # window now c sessionId)))"
proof (intro conjI impI)
  show "cache_addMessage now c sessionId msg =
      run_commands now sessionId c [LPUSH msg, EXPIRE, LTRIM]"
    using cache_addMessage_commands by (simp add: addMessage_commands_def)
next
  assume "faults c = []"
  then have "cache_addMessage now c sessionId msg =
      (Inr (), c\<lparr>messages_keys := (messages_keys c)(sessionId \<mapsto>
         (take 50 (msg # window now c sessionId), Some (now + 3600)))\<rparr>)"
    by (rule cache_addMessage_accepted)
  then show "fst (cache_addMessage now c sessionId msg) = Inr ()"
    and "window now (snd (cache_addMessage now c sessionId msg)) sessionId =
        take 50 (msg # window now c sessionId)"
    and "window_expiry now (snd (cache_addMessage now c sessionId msg)) sessionId =
        Some (now + 3600)"
    by (simp_all add: window_def window_expiry_def live_def)
next
  assume h: "faults c = [] \<and>
    ks \<in> set (interleavings [LPUSH a, EXPIRE, LTRIM] [LPUSH b, EXPIRE, LTRIM])"
  then have f: "faults c = []" by simp
  from h have ks: "ks \<in> set (interleavings (addMessage_commands a) (addMessage_commands b))"
    by (simp add: addMessage_commands_def)
  note r = run_commands_accepted [OF f, of now sessionId ks]
  from r show "fst (run_commands now sessionId c ks) = Inr ()" by simp
  from r interleaved_entry [OF ks, of now "live now (messages_keys c sessionId)"]
  show "window_expiry now (snd (run_commands now sessionId c ks)) sessionId = Some (now + 3600)"
    by (auto simp add: window_expiry_def)
  from r interleaved_entry [OF ks, of now "live now (messages_keys c sessionId)"]
  show "window now (snd (run_commands now sessionId c ks)) sessionId =
         take 50 (a # b # window now c sessionId) \<or>
       window now (snd (run_commands now sessionId c ks)) sessionId =
         take 50 (b # a # window now c sessionId)"
    by (auto simp add: window_def)
qed

text \<open>An append of \<open>m2\<close> to the window \<open>[m1]\<close>, and the appends of \<open>m2\<close> and \<open>m3\<close>
  with both pushes before the first \<^verbatim>\<open>EXPIRE\<close>.\<close>

theorem window_update_three_commands_witness:
  "faults (cache st_one) = [] \<and>
   window 200 (cache st_one) ''S'' = [data_m1] \<and>
   [LPUSH data_m2, LPUSH data_m3, EXPIRE, LTRIM, EXPIRE, LTRIM] \<in>
     set (interleavings [LPUSH data_m2, EXPIRE, LTRIM] [LPUSH data_m3, EXPIRE, LTRIM]) \<and>
   fst (run_commands 200 ''S'' (cache st_one)
          [LPUSH data_m2, LPUSH data_m3, EXPIRE, LTRIM, EXPIRE, LTRIM]) = Inr () \<and>
   window 200 (snd (run_commands 200 ''S'' (cache st_one)
          [LPUSH data_m2, LPUSH data_m3, EXPIRE, LTRIM, EXPIRE, LTRIM])) ''S'' =
     [data_m3, data_m2, data_m1] \<and>
   fst (cache_addMessage 200 (cache st_one) ''S'' data_m2) = Inr () \<and>
   window 200 (snd (cache_addMessage 200 (cache st_one) ''S'' data_m2)) ''S'' =
     [data_m2, data_m1]"
proof -
  have w: "window 200 (cache st_one) ''S'' = [data_m1]"
    by (simp add: st_one_eq window_def live_def)
  have f: "faults (cache st_one) = []"
    by (simp add: st_one_eq)
  have m: "[LPUSH data_m2, LPUSH data_m3, EXPIRE, LTRIM, EXPIRE, LTRIM] \<in>
     set (interleavings [LPUSH data_m2, EXPIRE, LTRIM] [LPUSH data_m3, EXPIRE, LTRIM])"
    by simp
  have l: "live 200 (messages_keys (cache st_one) ''S'') = Some ([data_m1], Some 3701)"
    by (simp add: st_one_eq live_def)
  have d: "data_m2 \<noteq> data_m3"
    by (simp add: data_m2_def data_m3_def)
  have r: "window 200 (snd (run_commands 200 ''S'' (cache st_one)
          [LPUSH data_m2, LPUSH data_m3, EXPIRE, LTRIM, EXPIRE, LTRIM])) ''S'' =
     [data_m3, data_m2, data_m1]"
    using run_commands_accepted [OF f, of 200 "''S''"
        "[LPUSH data_m2, LPUSH data_m3, EXPIRE, LTRIM, EXPIRE, LTRIM]"] l
    by (simp add: window_def)
  show ?thesis
    using w f m r
      window_update_three_commands [of 200 "cache st_one" "''S''" data_m2
        "[LPUSH data_m2, LPUSH data_m3, EXPIRE, LTRIM, EXPIRE, LTRIM]" data_m2 data_m3]
    by (auto simp del: run_commands.simps)
qed

section \<open>Facts about appends\<close>

lemma cache_addMessage_Inr:
  "cache_addMessage now c sid msg = (Inr u, c') \<Longrightarrow>
   c' = c\<lparr>messages_keys :=
            (messages_keys c)(sid \<mapsto> (take 50 (msg # window now c sid), Some (now + 3600))),
          faults := tl (tl (tl (faults c)))\<rparr>"
  by (auto simp add: cache_addMessage_def lpush_def expire_def ltrim_def redis_range_0_49
      window_def live_def consumed_def split: option.splits if_splits)

lemma window_after_append:
  "cache_addMessage now c sid msg = (Inr u, c') \<Longrightarrow>
   window now c' sid = take 50 (msg # window now c sid) \<and>
   window_expiry now c' sid = Some (now + 3600)"
  by (drule cache_addMessage_Inr) (simp add: window_def window_expiry_def live_def)

lemma bounded_after_append:
  "bounded c \<Longrightarrow> cache_addMessage now c sid msg = (Inr u, c') \<Longrightarrow> bounded c'"
  by (drule cache_addMessage_Inr) (auto simp add: bounded_def)

lemma bounded_cache_appends:
  "bounded c \<Longrightarrow> cache_appends c calls = Some c' \<Longrightarrow> bounded c'"
proof (induction calls arbitrary: c)
  case Nil
  then show ?case by simp
next
  case (Cons a calls)
  obtain now sid msg where a: "a = (now, sid, msg)" by (cases a)
  from Cons.prems(2) obtain u c1 where
    step: "cache_addMessage now c sid msg = (Inr u, c1)" and rest: "cache_appends c1 calls = Some c'"
    by (auto simp add: a split: prod.splits sum.splits)
  from bounded_after_append [OF Cons.prems(1) step] rest show ?case
    by (rule Cons.IH)
qed

lemma find_by_id_findByIdAndUpdate:
  "(\<And>x. c_id (f x) = c_id x) \<Longrightarrow>
   find (\<lambda>c. c_id c = i) (findByIdAndUpdate j f cs) =
     (if i = j then map_option f (find (\<lambda>c. c_id c = i) cs) else find (\<lambda>c. c_id c = i) cs)"
  by (induction cs) auto

lemma find_by_id_member:
  "distinct (map c_id cs) \<Longrightarrow> c \<in> set cs \<Longrightarrow> find (\<lambda>x. c_id x = c_id c) cs = Some c"
  by (induction cs) auto

lemma id_session_unique:
  "distinct (map c_sessionId (conversations s)) \<Longrightarrow> (i, sid) \<in> set (id_session s) \<Longrightarrow>
   (j, sid) \<in> set (id_session s) \<Longrightarrow> i = j"
  by (auto simp add: id_session_def distinct_map dest: inj_onD)

lemma getConversation_cache_keys:
  "getConversation now s sid = (Inr (Some v), s1) \<Longrightarrow>
   conversations s1 = conversations s \<and> messages s1 = messages s \<and>
   ((\<exists>t. conversation_keys (cache s) sid = Some (v, t)) \<and>
      conversation_keys (cache s1) = conversation_keys (cache s) \<or>
    (\<exists>db. findOne_active (conversations s) sid = Some db \<and> v = projection db \<and>
      conversation_keys (cache s1) =
        (conversation_keys (cache s))(sid \<mapsto> (v, Some (now + 3600)))))"
  by (auto simp add: getConversation_def getCachedConversation_eq cacheConversation_eq Let_def
      cached_now_def live_def projection_def split: option.splits if_splits)

lemma findOne_active_pair:
  "findOne_active (conversations s) sid = Some db \<Longrightarrow> (c_id db, sid) \<in> set (id_session s)"
  by (auto simp add: findOne_active_def id_session_def find_Some_iff)

lemma getConversation_Some_coherent:
  assumes "coherent s" and "getConversation now s sid = (Inr (Some v), s1)"
  shows "(cc_id v, sid) \<in> set (id_session s)" and "coherent s1"
proof -
  note k = getConversation_cache_keys [OF assms(2)]
  from k have ids: "id_session s1 = id_session s"
    by (simp add: id_session_def)
  from k assms(1) show v: "(cc_id v, sid) \<in> set (id_session s)"
    by (auto simp add: coherent_def projection_def dest: findOne_active_pair)
  from k assms(1) v show "coherent s1"
    unfolding coherent_def ids by (auto split: if_splits)
qed

lemma addMessage_Inr:
  assumes "addMessage upload now mid oid s sid role content files = (Inr m, s')"
  shows "\<exists>v s1. getConversation now s sid = (Inr (Some v), s1) \<and>
           md_conversationId (m_data m) = cc_id v \<and>
           messages s' = messages s @ [m] \<and>
           conversations s' =
             findByIdAndUpdate (cc_id v)
               (\<lambda>c. c\<lparr>c_lastActivity := now, c_messageCount := c_messageCount c + 1,
                       c_updatedAt := now\<rparr>) (conversations s) \<and>
           conversation_keys (cache s') = conversation_keys (cache s1)"
proof -
  obtain r s1 where g: "getConversation now s sid = (r, s1)"
    by (cases "getConversation now s sid")
  with assms obtain v where r: "r = Inr (Some v)"
    by (cases r; cases "projr r") (auto simp add: addMessage_def)
  note k = getConversation_cache_keys [OF g [unfolded r]]
  from assms g r k show ?thesis
    by (auto simp add: addMessage_def save_message_def Let_def
        split: sum.splits prod.splits if_splits dest!: cache_addMessage_Inr)
qed

lemma addMessage_step:
  assumes co: "coherent s" and p: "(i, sid) \<in> set (id_session s)"
    and a: "addMessage upload now mid oid s sid role content files = (Inr m, s')"
  shows "coherent s'" and "(i, sid) \<in> set (id_session s')"
    and "messageCount_of s' i = map_option (\<lambda>k. k + 1) (messageCount_of s i)"
    and "owned s' i = Suc (owned s i)"
proof -
  from addMessage_Inr [OF a] obtain v s1 where
    g: "getConversation now s sid = (Inr (Some v), s1)" and
    mv: "md_conversationId (m_data m) = cc_id v" and
    ms: "messages s' = messages s @ [m]" and
    cs: "conversations s' =
           findByIdAndUpdate (cc_id v)
             (\<lambda>c. c\<lparr>c_lastActivity := now, c_messageCount := c_messageCount c + 1,
                     c_updatedAt := now\<rparr>) (conversations s)" and
    ks: "conversation_keys (cache s') = conversation_keys (cache s1)"
    by blast
  note gc = getConversation_Some_coherent [OF co g]
  from co have d: "distinct (map c_sessionId (conversations s))"
    by (simp add: coherent_def)
  from id_session_unique [OF d p gc(1)] have iv: "i = cc_id v" .
  have "map c_id (conversations s') = map c_id (conversations s)"
    and "map c_sessionId (conversations s') = map c_sessionId (conversations s)"
    and ids: "id_session s' = id_session s"
    unfolding cs id_session_def by (simp_all add: findByIdAndUpdate_map)
  moreover from getConversation_cache_keys [OF g]
  have "conversations s1 = conversations s" by simp
  ultimately show "coherent s'"
    using ks gc(2) by (simp add: coherent_def id_session_def)
  from p ids show "(i, sid) \<in> set (id_session s')" by simp
  show "messageCount_of s' i = map_option (\<lambda>k. k + 1) (messageCount_of s i)"
    unfolding messageCount_of_def cs iv
    by (simp add: find_by_id_findByIdAndUpdate option.map_comp comp_def)
  show "owned s' i = Suc (owned s i)"
    by (simp add: owned_def ms mv iv)
qed

lemma addMessages_count:
  "coherent s \<Longrightarrow> (i, sid) \<in> set (id_session s) \<Longrightarrow>
   addMessages upload s sid calls = Some s' \<Longrightarrow>
   coherent s' \<and> (i, sid) \<in> set (id_session s') \<and>
   messageCount_of s' i = map_option (\<lambda>k. k + int (length calls)) (messageCount_of s i) \<and>
   owned s' i = owned s i + length calls"
proof (induction calls arbitrary: s)
  case Nil
  then show ?case by (simp add: option.map_ident)
next
  case (Cons a calls)
  from Cons.prems(3) obtain m s1 where
    a: "addMessage upload (ac_now a) (ac_messageId a) (ac_oid a) s sid
          (ac_role a) (ac_content a) (ac_files a) = (Inr m, s1)" and
    rest: "addMessages upload s1 sid calls = Some s'"
    by (auto split: prod.splits sum.splits)
  note st = addMessage_step [OF Cons.prems(1,2) a]
  from Cons.IH [OF st(1,2) rest] st(3,4) show ?case
    by (simp add: option.map_comp comp_def add.assoc add.commute)
qed

section \<open>The states that the service produces\<close>

text \<open>The empty state is \<open>coherent\<close>, and every operation of the service takes a
  coherent state to a coherent state, whatever it returns and whichever cache commands
  are rejected.\<close>

lemma coherent_empty: "coherent empty_state"
  by (simp add: coherent_def empty_state_def empty_cache_def)

lemma coherent_cache_faults:
  "coherent s \<Longrightarrow> conversations s' = conversations s \<Longrightarrow>
   conversation_keys (cache s') = conversation_keys (cache s) \<Longrightarrow> coherent s'"
  by (simp add: coherent_def id_session_def)

lemma coherent_getConversation: "coherent s \<Longrightarrow> coherent (snd (getConversation now s sid))"
proof -
  assume co: "coherent s"
  obtain r s1 where g: "getConversation now s sid = (r, s1)"
    by (cases "getConversation now s sid")
  show ?thesis
  proof (cases "\<exists>v. r = Inr (Some v)")
    case True
    with g co show ?thesis by (auto dest: getConversation_Some_coherent(2))
  next
    case False
    with g have "conversations s1 = conversations s \<and>
        conversation_keys (cache s1) = conversation_keys (cache s)"
      by (auto simp add: getConversation_def getCachedConversation_eq cacheConversation_eq Let_def
          split: option.splits if_splits)
    with co g show ?thesis by (auto intro: coherent_cache_faults)
  qed
qed

lemma coherent_createConversation:
  "coherent s \<Longrightarrow>
   coherent (snd (createConversation now sessionId oid s userId type metadata))"
  by (auto simp add: createConversation_def save_conversation_def cacheConversation_eq Let_def
      coherent_def id_session_def split: if_splits)

lemma coherent_update:
  assumes "coherent s"
    and "conversations s' = findByIdAndUpdate i f (conversations s)"
    and "\<And>x. c_id (f x) = c_id x" and "\<And>x. c_sessionId (f x) = c_sessionId x"
    and "conversation_keys (cache s') = conversation_keys (cache s)"
  shows "coherent s'"
proof -
  have "map c_id (conversations s') = map c_id (conversations s)"
    and "map c_sessionId (conversations s') = map c_sessionId (conversations s)"
    and "id_session s' = id_session s"
    unfolding assms(2) id_session_def by (simp_all add: findByIdAndUpdate_map assms(3,4))
  with assms(1,5) show ?thesis
    by (simp add: coherent_def)
qed

lemma coherent_deleteConversation:
  "coherent s \<Longrightarrow> coherent (snd (deleteConversation now s sessionId userId))"
  by (cases "findOne_owned (conversations s) sessionId userId")
    (auto simp add: deleteConversation_def deleteSession_eq Let_def
      intro: coherent_update [where s = s])

lemma coherent_getMessages:
  "coherent s \<Longrightarrow> coherent (snd (getMessages now s sessionId page limit))"
proof -
  assume co: "coherent s"
  have store: "coherent (snd (getMessages_store now s' sessionId page limit))"
    if "coherent s'" for s'
    using coherent_getConversation [OF that, of now sessionId]
    by (auto simp add: getMessages_store_def split: prod.splits sum.splits option.splits)
  have "coherent (s\<lparr>cache := consumed (cache s)\<rparr>)"
    using co by (rule coherent_cache_faults) simp_all
  with co store show ?thesis
    by (auto simp add: getMessages_def getRecentMessages_def lrange_def)
qed

lemma cache_addMessage_conversation_keys:
  "conversation_keys (snd (cache_addMessage now c sid msg)) = conversation_keys c"
  by (simp add: cache_addMessage_def lpush_def expire_def ltrim_def
      split: option.splits)


lemma coherent_addMessage:
  assumes "coherent s"
  shows "coherent (snd (addMessage upload now mid oid s sid role content files))"
proof -
  obtain r s1 where g: "getConversation now s sid = (r, s1)"
    by (cases "getConversation now s sid")
  with coherent_getConversation [OF assms, of now sid] have s1: "coherent s1"
    by simp
  show ?thesis
  proof (cases r)
    case (Inl e)
    with g s1 show ?thesis by (simp add: addMessage_def)
  next
    case (Inr ov)
    show ?thesis
    proof (cases ov)
      case None
      with Inr g s1 show ?thesis by (simp add: addMessage_def)
    next
      case (Some v)
      show ?thesis
      proof (cases "upload_files upload (''conversations/'' @ sid) files [] []")
        case (Inl e)
        with Some Inr g s1 show ?thesis by (simp add: addMessage_def)
      next
        case up: (Inr p)
        obtain images attachments where p: "p = (images, attachments)" by (cases p)
        define d where "d =
          \<lparr>md_conversationId = cc_id v, md_sessionId = sid, md_messageId = mid, md_role = role,
           md_text = content, md_images = images, md_attachments = attachments,
           md_timestamp = now, md_tokenCount = length content\<rparr>"
        define m where "m = \<lparr>m_id = oid, m_data = d, m_createdAt = now, m_updatedAt = now\<rparr>"
        show ?thesis
        proof (cases "save_message (messages s1) m")
          case (Inl e)
          with up p Some Inr g s1 show ?thesis
            by (simp add: addMessage_def Let_def d_def m_def)
        next
          case sv: (Inr ms)
          obtain q c2 where c: "cache_addMessage now (cache s1) sid d = (q, c2)"
            by (cases "cache_addMessage now (cache s1) sid d")
          with cache_addMessage_conversation_keys [of now "cache s1" sid d]
          have k: "conversation_keys c2 = conversation_keys (cache s1)" by simp
          have a: "coherent (s1\<lparr>messages := ms, cache := c2\<rparr>)"
            by (rule coherent_cache_faults [OF s1]) (simp_all add: k)
          have b: "coherent (s1\<lparr>conversations := findByIdAndUpdate (cc_id v)
              (\<lambda>c. c\<lparr>c_lastActivity := now, c_messageCount := c_messageCount c + 1,
                      c_updatedAt := now\<rparr>) (conversations s1), messages := ms, cache := c2\<rparr>)"
            by (rule coherent_update [OF s1, where i = "cc_id v" and
                  f = "\<lambda>c. c\<lparr>c_lastActivity := now, c_messageCount := c_messageCount c + 1,
                      c_updatedAt := now\<rparr>"]) (simp_all add: k)
          from a b c sv up p Some Inr g show ?thesis
            by (cases q) (simp_all add: addMessage_def Let_def d_def m_def)
        qed
      qed
    qed
  qed
qed

text \<open>Without a rejected cache command, the operations also keep the counters, the
  ownership of the messages and the bound of the windows.\<close>

lemma steady_empty: "steady empty_state"
  unfolding steady_def
  by (intro conjI coherent_empty)
    (simp_all add: counted_def attached_def bounded_def empty_state_def empty_cache_def)

lemma findByIdAndUpdate_distinct:
  "distinct (map c_id cs) \<Longrightarrow>
   findByIdAndUpdate i f cs = map (\<lambda>c. if c_id c = i then f c else c) cs"
proof (induction cs)
  case Nil
  then show ?case by simp
next
  case (Cons c cs)
  show ?case
  proof (cases "c_id c = i")
    case True
    have "c_id x \<noteq> i" if "x \<in> set cs" for x
    proof
      assume "c_id x = i"
      with that True have "c_id c \<in> c_id ` set cs" by (metis imageI)
      with Cons.prems show False by simp
    qed
    then have "\<forall>x \<in> set cs. c_id x \<noteq> i" by simp
    then have "map (\<lambda>c. if c_id c = i then f c else c) cs = cs"
      by (induction cs) auto
    with True show ?thesis by simp
  next
    case False
    with Cons show ?thesis by simp
  qed
qed

lemma getConversation_rest:
  "conversations (snd (getConversation now s sid)) = conversations s"
  "messages (snd (getConversation now s sid)) = messages s"
  "messages_keys (cache (snd (getConversation now s sid))) = messages_keys (cache s)"
  "faults (cache s) = [] \<Longrightarrow> faults (cache (snd (getConversation now s sid))) = []"
  by (simp_all add: getConversation_def getCachedConversation_eq cacheConversation_eq Let_def
      split: option.splits)

lemma steady_store_same:
  assumes "steady s" and "coherent s'" and "conversations s' = conversations s"
    and "messages s' = messages s" and "messages_keys (cache s') = messages_keys (cache s)"
    and "faults (cache s') = []"
  shows "steady s'"
  using assms by (simp add: steady_def counted_def attached_def owned_def bounded_def)

lemma steady_getConversation: "steady s \<Longrightarrow> steady (snd (getConversation now s sid))"
  by (rule steady_store_same [where s = s])
    (simp_all add: getConversation_rest coherent_getConversation steady_def)


lemma steady_createConversation:
  assumes "steady s"
  shows "steady (snd (createConversation now sessionId oid s userId type metadata))"
proof -
  let ?s' = "snd (createConversation now sessionId oid s userId type metadata)"
  from assms have co: "coherent ?s'"
    by (simp add: steady_def coherent_createConversation)
  from assms have f: "faults (cache s) = []" and a: "attached s" and c: "counted s"
    and b: "bounded (cache s)"
    by (simp_all add: steady_def)
  have rest: "messages ?s' = messages s" "messages_keys (cache ?s') = messages_keys (cache s)"
    "faults (cache ?s') = []"
    using f
    by (simp_all add: createConversation_def save_conversation_def cacheConversation_eq Let_def
        split: sum.splits)
  have "owned s oid = 0" if "oid \<notin> set (map c_id (conversations s))"
    using a that by (auto simp add: attached_def owned_def filter_empty_conv)
  then have "counted ?s'"
    using c f
    by (auto simp add: createConversation_def save_conversation_def cacheConversation_eq Let_def
        counted_def owned_def split: if_splits)
  moreover have "attached ?s'"
    using a f
    by (auto simp add: createConversation_def save_conversation_def cacheConversation_eq Let_def
        attached_def split: if_splits)
  ultimately show ?thesis
    using co rest b by (simp add: steady_def bounded_def)
qed

lemma addMessage_no_faults:
  assumes "faults (cache s1) = []" and "getConversation now s sid = (r, s1)"
  shows "snd (addMessage upload now mid oid s sid role content files) = s1 \<or>
     (\<exists>v m. r = Inr (Some v) \<and> md_conversationId (m_data m) = cc_id v \<and>
        snd (addMessage upload now mid oid s sid role content files) =
          s1\<lparr>conversations :=
               findByIdAndUpdate (cc_id v)
                 (\<lambda>c. c\<lparr>c_lastActivity := now, c_messageCount := c_messageCount c + 1,
                         c_updatedAt := now\<rparr>) (conversations s1),
             messages := messages s1 @ [m],
             cache := (cache s1)\<lparr>messages_keys := (messages_keys (cache s1))(sid \<mapsto>
               (take 50 (m_data m # window now (cache s1) sid), Some (now + 3600)))\<rparr>\<rparr>)"
proof (cases "\<exists>v. r = Inr (Some v)")
  case False
  with assms(2) show ?thesis
    by (cases r; cases "projr r") (auto simp add: addMessage_def)
next
  case True
  then obtain v where r: "r = Inr (Some v)" by blast
  show ?thesis
  proof (cases "upload_files upload (''conversations/'' @ sid) files [] []")
    case (Inl e)
    with r assms(2) show ?thesis by (simp add: addMessage_def)
  next
    case up: (Inr p)
    obtain images attachments where p: "p = (images, attachments)" by (cases p)
    define d where "d =
      \<lparr>md_conversationId = cc_id v, md_sessionId = sid, md_messageId = mid, md_role = role,
       md_text = content, md_images = images, md_attachments = attachments,
       md_timestamp = now, md_tokenCount = length content\<rparr>"
    define m where "m = \<lparr>m_id = oid, m_data = d, m_createdAt = now, m_updatedAt = now\<rparr>"
    show ?thesis
    proof (cases "save_message (messages s1) m")
      case (Inl e)
      with up p r assms(2) show ?thesis
        by (simp add: addMessage_def Let_def d_def m_def)
    next
      case sv: (Inr ms)
      then have ms: "ms = messages s1 @ [m]"
        by (auto simp add: save_message_def split: if_splits)
      have md: "m_data m = d" "md_conversationId d = cc_id v"
        by (simp_all add: m_def d_def)
      from sv up p r assms(2) cache_addMessage_accepted [OF assms(1), of now sid d]
      have "snd (addMessage upload now mid oid s sid role content files) =
          s1\<lparr>conversations :=
               findByIdAndUpdate (cc_id v)
                 (\<lambda>c. c\<lparr>c_lastActivity := now, c_messageCount := c_messageCount c + 1,
                         c_updatedAt := now\<rparr>) (conversations s1),
             messages := messages s1 @ [m],
             cache := (cache s1)\<lparr>messages_keys := (messages_keys (cache s1))(sid \<mapsto>
               (take 50 (m_data m # window now (cache s1) sid), Some (now + 3600)))\<rparr>\<rparr>"
        unfolding md ms
        by (simp add: addMessage_def Let_def flip: d_def m_def)
      with r md show ?thesis by auto
    qed
  qed
qed


lemma steady_addMessage:
  assumes "steady s"
  shows "steady (snd (addMessage upload now mid oid s sid role content files))"
proof -
  let ?s' = "snd (addMessage upload now mid oid s sid role content files)"
  obtain r s1 where g: "getConversation now s sid = (r, s1)"
    by (cases "getConversation now s sid")
  with steady_getConversation [OF assms, of now sid] have s1: "steady s1"
    by simp
  then have f: "faults (cache s1) = []"
    by (simp add: steady_def)
  from assms have co: "coherent ?s'"
    by (simp add: steady_def coherent_addMessage)
  from addMessage_no_faults [OF f g, of upload mid oid role content files] show ?thesis
  proof
    assume "?s' = s1"
    with s1 show ?thesis by simp
  next
    assume "\<exists>v m. r = Inr (Some v) \<and> md_conversationId (m_data m) = cc_id v \<and>
        ?s' =
          s1\<lparr>conversations :=
               findByIdAndUpdate (cc_id v)
                 (\<lambda>c. c\<lparr>c_lastActivity := now, c_messageCount := c_messageCount c + 1,
                         c_updatedAt := now\<rparr>) (conversations s1),
             messages := messages s1 @ [m],
             cache := (cache s1)\<lparr>messages_keys := (messages_keys (cache s1))(sid \<mapsto>
               (take 50 (m_data m # window now (cache s1) sid), Some (now + 3600)))\<rparr>\<rparr>"
    then obtain v m where r: "r = Inr (Some v)" and mv: "md_conversationId (m_data m) = cc_id v"
      and s': "?s' =
          s1\<lparr>conversations :=
               findByIdAndUpdate (cc_id v)
                 (\<lambda>c. c\<lparr>c_lastActivity := now, c_messageCount := c_messageCount c + 1,
                         c_updatedAt := now\<rparr>) (conversations s1),
             messages := messages s1 @ [m],
             cache := (cache s1)\<lparr>messages_keys := (messages_keys (cache s1))(sid \<mapsto>
               (take 50 (m_data m # window now (cache s1) sid), Some (now + 3600)))\<rparr>\<rparr>"
      by blast
    from assms have cs: "coherent s" by (simp add: steady_def)
    from getConversation_Some_coherent(1) [OF cs g [unfolded r]]
    have known: "cc_id v \<in> set (map c_id (conversations s1))"
      using getConversation_rest(1) [where s = s and now = now and sid = sid] g
      by (force simp add: id_session_def)
    from s1 have d: "distinct (map c_id (conversations s1))"
      by (simp add: steady_def coherent_def)
    note upd = findByIdAndUpdate_distinct [OF d]
    from s1 have "counted ?s'"
      unfolding s' by (auto simp add: steady_def counted_def owned_def upd mv)
    moreover from s1 known have "attached ?s'"
      unfolding s' by (auto simp add: steady_def attached_def upd mv)
    moreover from s1 have "bounded (cache ?s')"
      unfolding s' by (auto simp add: steady_def bounded_def)
    moreover from f have "faults (cache ?s') = []"
      unfolding s' by simp
    ultimately show ?thesis
      using co by (simp add: steady_def)
  qed
qed

lemma getMessages_rest:
  "conversations (snd (getMessages now s sid page limit)) = conversations s"
  "messages (snd (getMessages now s sid page limit)) = messages s"
  "messages_keys (cache (snd (getMessages now s sid page limit))) = messages_keys (cache s)"
  "faults (cache s) = [] \<Longrightarrow> faults (cache (snd (getMessages now s sid page limit))) = []"
proof -
  have store: "conversations (snd (getMessages_store now s' sid page limit)) = conversations s' \<and>
      messages (snd (getMessages_store now s' sid page limit)) = messages s' \<and>
      messages_keys (cache (snd (getMessages_store now s' sid page limit))) =
        messages_keys (cache s') \<and>
      (faults (cache s') = [] \<longrightarrow>
         faults (cache (snd (getMessages_store now s' sid page limit))) = [])" for s'
    using getConversation_rest [where s = s' and now = now and sid = sid]
    by (auto simp add: getMessages_store_def split: prod.splits sum.splits option.splits)
  show "conversations (snd (getMessages now s sid page limit)) = conversations s"
    "messages (snd (getMessages now s sid page limit)) = messages s"
    "messages_keys (cache (snd (getMessages now s sid page limit))) = messages_keys (cache s)"
    "faults (cache s) = [] \<Longrightarrow> faults (cache (snd (getMessages now s sid page limit))) = []"
    using store [where s' = s] store [where s' = "s\<lparr>cache := consumed (cache s)\<rparr>"]
    by (auto simp add: getMessages_def getRecentMessages_def lrange_def)
qed

lemma steady_getMessages: "steady s \<Longrightarrow> steady (snd (getMessages now s sid page limit))"
  by (rule steady_store_same [where s = s])
    (simp_all add: getMessages_rest coherent_getMessages steady_def)

lemma steady_deleteConversation:
  assumes "steady s"
  shows "steady (snd (deleteConversation now s sid uid))"
proof -
  let ?s' = "snd (deleteConversation now s sid uid)"
  from assms have co: "coherent ?s'"
    by (simp add: steady_def coherent_deleteConversation)
  from assms have d: "distinct (map c_id (conversations s))"
    by (simp add: steady_def coherent_def)
  note upd = findByIdAndUpdate_distinct [OF d]
  have ids: "map c_id (conversations ?s') = map c_id (conversations s)"
    and ms: "messages ?s' = messages s"
    by (simp_all add: deleteConversation_def deleteSession_eq Let_def findByIdAndUpdate_map
        split: option.splits)
  from assms have "attached ?s'"
    unfolding attached_def ids ms by (simp add: steady_def attached_def)
  moreover
  from assms have "counted ?s'" "bounded (cache ?s')" "faults (cache ?s') = []"
    by (auto simp add: deleteConversation_def deleteSession_eq Let_def steady_def counted_def
        owned_def bounded_def upd split: option.splits)
  ultimately show ?thesis using co by (simp add: steady_def)
qed

lemma undisturbed_steady: "undisturbed s \<Longrightarrow> steady s"
  by (induction rule: undisturbed.induct)
    (simp_all add: steady_empty steady_createConversation steady_getConversation
      steady_addMessage steady_getMessages steady_deleteConversation)

subsection \<open>Whatever the cache rejects\<close>

lemma sound_empty: "sound empty_state"
  unfolding sound_def
  by (intro conjI coherent_empty)
    (simp_all add: attached_def undercounted_def empty_state_def empty_cache_def)

lemma sound_store_same:
  assumes "sound s" and "coherent s'" and "conversations s' = conversations s"
    and "messages s' = messages s"
  shows "sound s'"
  using assms by (simp add: sound_def undercounted_def attached_def owned_def)

lemma sound_faults: "sound s \<Longrightarrow> sound (s\<lparr>cache := (cache s)\<lparr>faults := fs\<rparr>\<rparr>)"
  by (rule sound_store_same [where s = s])
    (simp_all add: sound_def coherent_cache_faults [where s = s])

lemma sound_getConversation: "sound s \<Longrightarrow> sound (snd (getConversation now s sid))"
  by (rule sound_store_same [where s = s])
    (simp_all add: getConversation_rest coherent_getConversation sound_def)

lemma sound_getMessages: "sound s \<Longrightarrow> sound (snd (getMessages now s sid page limit))"
  by (rule sound_store_same [where s = s])
    (simp_all add: getMessages_rest coherent_getMessages sound_def)

lemma sound_createConversation:
  assumes "sound s"
  shows "sound (snd (createConversation now sessionId oid s userId type metadata))"
proof -
  let ?s' = "snd (createConversation now sessionId oid s userId type metadata)"
  from assms have co: "coherent ?s'"
    by (simp add: sound_def coherent_createConversation)
  from assms have a: "attached s" and c: "undercounted s"
    by (simp_all add: sound_def)
  have "undercounted ?s'"
    using c
    by (auto simp add: createConversation_def save_conversation_def cacheConversation_eq Let_def
        undercounted_def owned_def split: if_splits)
  moreover have "attached ?s'"
    using a
    by (auto simp add: createConversation_def save_conversation_def cacheConversation_eq Let_def
        attached_def split: if_splits)
  ultimately show ?thesis
    using co by (simp add: sound_def)
qed

lemma sound_deleteConversation:
  assumes "sound s"
  shows "sound (snd (deleteConversation now s sid uid))"
proof -
  let ?s' = "snd (deleteConversation now s sid uid)"
  from assms have co: "coherent ?s'"
    by (simp add: sound_def coherent_deleteConversation)
  from assms have d: "distinct (map c_id (conversations s))"
    by (simp add: sound_def coherent_def)
  note upd = findByIdAndUpdate_distinct [OF d]
  have ids: "map c_id (conversations ?s') = map c_id (conversations s)"
    and ms: "messages ?s' = messages s"
    by (simp_all add: deleteConversation_def deleteSession_eq Let_def findByIdAndUpdate_map
        split: option.splits)
  from assms have "attached ?s'"
    unfolding attached_def ids ms by (simp add: sound_def attached_def)
  moreover
  from assms have "undercounted ?s'"
    by (auto simp add: deleteConversation_def deleteSession_eq Let_def sound_def undercounted_def
        owned_def upd split: option.splits)
  ultimately show ?thesis using co by (simp add: sound_def)
qed

text \<open>The states that \<^verbatim>\<open>addMessage\<close> can leave: nothing stored, the message
  saved and the counter as it was, or the message saved and counted.\<close>

lemma addMessage_shapes:
  assumes "getConversation now s sid = (r, s1)"
  shows "snd (addMessage upload now mid oid s sid role content files) = s1 \<or>
     (\<exists>v m c2. r = Inr (Some v) \<and> md_conversationId (m_data m) = cc_id v \<and>
        (snd (addMessage upload now mid oid s sid role content files) =
           s1\<lparr>messages := messages s1 @ [m], cache := c2\<rparr> \<or>
         snd (addMessage upload now mid oid s sid role content files) =
           s1\<lparr>conversations :=
                findByIdAndUpdate (cc_id v)
                  (\<lambda>c. c\<lparr>c_lastActivity := now, c_messageCount := c_messageCount c + 1,
                          c_updatedAt := now\<rparr>) (conversations s1),
              messages := messages s1 @ [m], cache := c2\<rparr>))"
proof (cases "\<exists>v. r = Inr (Some v)")
  case False
  with assms show ?thesis
    by (cases r; cases "projr r") (auto simp add: addMessage_def)
next
  case True
  then obtain v where r: "r = Inr (Some v)" by blast
  show ?thesis
  proof (cases "upload_files upload (''conversations/'' @ sid) files [] []")
    case (Inl e)
    with r assms show ?thesis by (simp add: addMessage_def)
  next
    case up: (Inr p)
    obtain images attachments where p: "p = (images, attachments)" by (cases p)
    define d where "d =
      \<lparr>md_conversationId = cc_id v, md_sessionId = sid, md_messageId = mid, md_role = role,
       md_text = content, md_images = images, md_attachments = attachments,
       md_timestamp = now, md_tokenCount = length content\<rparr>"
    define m where "m = \<lparr>m_id = oid, m_data = d, m_createdAt = now, m_updatedAt = now\<rparr>"
    show ?thesis
    proof (cases "save_message (messages s1) m")
      case (Inl e)
      with up p r assms show ?thesis
        by (simp add: addMessage_def Let_def d_def m_def)
    next
      case sv: (Inr ms)
      then have ms: "ms = messages s1 @ [m]"
        by (auto simp add: save_message_def split: if_splits)
      have md: "md_conversationId (m_data m) = cc_id v"
        by (simp add: m_def d_def)
      obtain q c2 where c: "cache_addMessage now (cache s1) sid d = (q, c2)"
        by (cases "cache_addMessage now (cache s1) sid d")
      from sv up p r assms c
      have "snd (addMessage upload now mid oid s sid role content files) =
           s1\<lparr>messages := messages s1 @ [m], cache := c2\<rparr> \<or>
         snd (addMessage upload now mid oid s sid role content files) =
           s1\<lparr>conversations :=
                findByIdAndUpdate (cc_id v)
                  (\<lambda>c. c\<lparr>c_lastActivity := now, c_messageCount := c_messageCount c + 1,
                          c_updatedAt := now\<rparr>) (conversations s1),
              messages := messages s1 @ [m], cache := c2\<rparr>"
        unfolding ms
        by (cases q) (simp_all add: addMessage_def Let_def flip: d_def m_def)
      with r md show ?thesis by blast
    qed
  qed
qed

lemma sound_addMessage:
  assumes "sound s"
  shows "sound (snd (addMessage upload now mid oid s sid role content files))"
proof -
  let ?s' = "snd (addMessage upload now mid oid s sid role content files)"
  obtain r s1 where g: "getConversation now s sid = (r, s1)"
    by (cases "getConversation now s sid")
  with sound_getConversation [OF assms, of now sid] have s1: "sound s1"
    by simp
  from assms have co: "coherent ?s'"
    by (simp add: sound_def coherent_addMessage)
  from addMessage_shapes [OF g, of upload mid oid role content files] show ?thesis
  proof
    assume "?s' = s1"
    with s1 show ?thesis by simp
  next
    assume "\<exists>v m c2. r = Inr (Some v) \<and> md_conversationId (m_data m) = cc_id v \<and>
        (?s' = s1\<lparr>messages := messages s1 @ [m], cache := c2\<rparr> \<or>
         ?s' =
           s1\<lparr>conversations :=
                findByIdAndUpdate (cc_id v)
                  (\<lambda>c. c\<lparr>c_lastActivity := now, c_messageCount := c_messageCount c + 1,
                          c_updatedAt := now\<rparr>) (conversations s1),
              messages := messages s1 @ [m], cache := c2\<rparr>)"
    then obtain v m c2 where r: "r = Inr (Some v)"
      and mv: "md_conversationId (m_data m) = cc_id v"
      and s': "?s' = s1\<lparr>messages := messages s1 @ [m], cache := c2\<rparr> \<or>
         ?s' =
           s1\<lparr>conversations :=
                findByIdAndUpdate (cc_id v)
                  (\<lambda>c. c\<lparr>c_lastActivity := now, c_messageCount := c_messageCount c + 1,
                          c_updatedAt := now\<rparr>) (conversations s1),
              messages := messages s1 @ [m], cache := c2\<rparr>"
      by blast
    from assms have cs: "coherent s" by (simp add: sound_def)
    from getConversation_Some_coherent(1) [OF cs g [unfolded r]]
    have known: "cc_id v \<in> set (map c_id (conversations s1))"
      using getConversation_rest(1) [where s = s and now = now and sid = sid] g
      by (force simp add: id_session_def)
    from s1 have d: "distinct (map c_id (conversations s1))"
      by (simp add: sound_def coherent_def)
    note upd = findByIdAndUpdate_distinct [OF d]
    from s' show ?thesis
    proof
      assume e: "?s' = s1\<lparr>messages := messages s1 @ [m], cache := c2\<rparr>"
      from s1 have "undercounted ?s'"
        unfolding e by (auto simp add: sound_def undercounted_def owned_def)
      moreover from s1 known have "attached ?s'"
        unfolding e by (auto simp add: sound_def attached_def mv)
      ultimately show ?thesis using co by (simp add: sound_def)
    next
      assume e: "?s' =
           s1\<lparr>conversations :=
                findByIdAndUpdate (cc_id v)
                  (\<lambda>c. c\<lparr>c_lastActivity := now, c_messageCount := c_messageCount c + 1,
                          c_updatedAt := now\<rparr>) (conversations s1),
              messages := messages s1 @ [m], cache := c2\<rparr>"
      from s1 have "undercounted ?s'"
        unfolding e by (auto simp add: sound_def undercounted_def owned_def upd mv)
      moreover from s1 known have "attached ?s'"
        unfolding e by (auto simp add: sound_def attached_def upd mv)
      ultimately show ?thesis using co by (simp add: sound_def)
    qed
  qed
qed

lemma reachable_sound: "reachable s \<Longrightarrow> sound s"
  by (induction rule: reachable.induct)
    (simp_all add: sound_empty sound_faults sound_createConversation sound_getConversation
      sound_addMessage sound_getMessages sound_deleteConversation)

lemma undisturbed_reachable: "undisturbed s \<Longrightarrow> reachable s"
  by (induction rule: undisturbed.induct) (auto intro: reachable.intros)

section \<open>The bound of the cache window\<close>

lemma bounded_window: "bounded c \<Longrightarrow> length (window now c sid) \<le> 50"
  by (auto simp add: bounded_def window_def live_def split: option.splits if_splits)

lemma undisturbed_session:
  "undisturbed st_created" "undisturbed st_one" "undisturbed st_two" "undisturbed st_deleted"
  unfolding st_created_def st_one_def st_two_def st_deleted_def
  by (intro undisturbed.intros)+

lemma full_cache_window: "window 200 (full_cache fs) ''S'' = map filler (rev [0..<50])"
  by (simp add: window_def full_cache_def live_def)

lemma cache_addMessage_grows:
  "length (window now (snd (cache_addMessage now c sid msg)) sid) \<le>
     Suc (length (window now c sid))"
  by (auto simp add: cache_addMessage_def lpush_def expire_def ltrim_def redis_range_0_49
      window_def live_def split: option.splits if_splits)

lemma cache_appends_append:
  "cache_appends c (xs @ ys) =
     (case cache_appends c xs of None \<Rightarrow> None | Some c1 \<Rightarrow> cache_appends c1 ys)"
  by (induction c xs rule: cache_appends.induct) (auto split: prod.splits sum.splits)

lemma cache_appends_fillers:
  "n < 50 \<Longrightarrow>
   cache_appends empty_cache (map (\<lambda>i. (100, ''S'', filler i)) [0..<Suc n]) =
     Some \<lparr>session_keys = Map.empty, conversation_keys = Map.empty,
           messages_keys = [''S'' \<mapsto> (map filler (rev [0..<Suc n]), Some 3700)], faults = []\<rparr>"
proof (induction n)
  case 0
  show ?case
    by (simp add: cache_addMessage_accepted empty_cache_def window_def live_def fun_eq_iff)
next
  case (Suc n)
  from Suc.prems have "n < 50"
    by simp
  note ih = Suc.IH [OF this]
  have u: "[0..<Suc (Suc n)] = [0..<Suc n] @ [Suc n]"
    by simp
  from Suc.prems show ?case
    by (simp only: u map_append cache_appends_append ih)
      (simp add: cache_addMessage_accepted window_def live_def fun_eq_iff)
qed

lemma full_cache_appends:
  "cache_appends empty_cache (map (\<lambda>i. (100, ''S'', filler i)) [0..<50]) = Some (full_cache [])"
  using cache_appends_fillers [of 49] by (simp add: full_cache_def)

text \<open>
  C7, as the claim states it (the window of a session never holds more than 50 entries,
  whatever the number of appends): not so. 50 completed appends to the empty cache fill
  the window of \<open>S\<close> to its bound; then the cache becomes unreachable for the third and
  fifth commands to come. The append at 200 pushes its message and sets the expiry, its
  \<^verbatim>\<open>LTRIM\<close> is rejected and the call raises: the window holds 51 entries. The append
  at 201 pushes its message, its \<^verbatim>\<open>EXPIRE\<close> is rejected and the call raises before
  the trim: the window holds 52 entries.
\<close>

theorem window_exceeds_50_untrimmed:
  "cache_appends empty_cache (map (\<lambda>i. (100, ''S'', filler i)) [0..<50]) =
     Some (full_cache []) \<and>
   full_cache [False, False, True, False, True] =
     (full_cache [])\<lparr>faults := [False, False, True, False, True]\<rparr> \<and>
   bounded (full_cache [False, False, True, False, True]) \<and>
   length (window 200 (full_cache [False, False, True, False, True]) ''S'') = 50 \<and>
   fst (cache_addMessage 200 (full_cache [False, False, True, False, True]) ''S'' data_m3) =
     Inl CacheError \<and>
   length (window 200
     (snd (cache_addMessage 200 (full_cache [False, False, True, False, True]) ''S'' data_m3))
     ''S'') = 51 \<and>
   fst (cache_addMessage 201
     (snd (cache_addMessage 200 (full_cache [False, False, True, False, True]) ''S'' data_m3))
     ''S'' data_m2) = Inl CacheError \<and>
   length (window 201
     (snd (cache_addMessage 201
        (snd (cache_addMessage 200 (full_cache [False, False, True, False, True]) ''S'' data_m3))
        ''S'' data_m2))
     ''S'') = 52"
  using full_cache_appends
  by (simp add: bounded_def cache_addMessage_def lpush_def expire_def ltrim_def rejected_def
      consumed_def full_cache_def window_def live_def)

text \<open>
  C7, amended: every completed append to the window of a session (\<^verbatim>\<open>LPUSH\<close>,
  \<^verbatim>\<open>EXPIRE\<close> and \<^verbatim>\<open>LTRIM\<close> all accepted) leaves the new message in front of the
  entries that were there, cut to the 50 most recent: the window then holds at most 50
  entries, whatever it held before. So a cache whose windows are within the bound keeps
  them within it through any sequence of completed appends, to any sessions at any times;
  and in every state reached while every cache command is accepted the window of every
  session holds at most 50 entries. An append whose \<^verbatim>\<open>EXPIRE\<close> or \<^verbatim>\<open>LTRIM\<close> is
  rejected leaves its message pushed and the list not trimmed: an append, whatever its
  outcome, lengthens the window by at most one entry, and the window can hold more than 50
  entries until the next completed append trims it.
\<close>

theorem window_at_most_50:
  "(cache_addMessage now c sessionId msg = (Inr u, c1) \<longrightarrow>
      window now c1 sessionId = take 50 (msg # window now c sessionId) \<and>
      length (window now c1 sessionId) \<le> 50) \<and>
   (bounded c \<and> cache_appends c calls = Some c' \<longrightarrow> bounded c') \<and>
   (undisturbed s \<longrightarrow> length (window now (cache s) sessionId) \<le> 50) \<and>
   length (window now (snd (cache_addMessage now c sessionId msg)) sessionId) \<le>
     Suc (length (window now c sessionId))"
proof (intro conjI impI)
  assume h: "cache_addMessage now c sessionId msg = (Inr u, c1)"
  from window_after_append [OF h]
  show "window now c1 sessionId = take 50 (msg # window now c sessionId)"
    by simp
  then show "length (window now c1 sessionId) \<le> 50"
    by simp
next
  assume "bounded c \<and> cache_appends c calls = Some c'"
  then show "bounded c'"
    using bounded_cache_appends [of c calls c'] by simp
next
  assume "undisturbed s"
  from undisturbed_steady [OF this] have "bounded (cache s)"
    by (simp add: steady_def)
  then show "length (window now (cache s) sessionId) \<le> 50"
    by (rule bounded_window)
next
  show "length (window now (snd (cache_addMessage now c sessionId msg)) sessionId) \<le>
     Suc (length (window now c sessionId))"
    by (rule cache_addMessage_grows)
qed

text \<open>The window of the session after its two messages, and an append to a window that is
  full: the window still has 50 entries, the new message first.\<close>

theorem window_at_most_50_witness:
  "undisturbed st_two \<and> length (window 200 (cache st_two) ''S'') = 2 \<and>
   bounded (full_cache []) \<and>
   length (window 200 (full_cache []) ''S'') = 50 \<and>
   cache_appends (full_cache []) [(200, ''S'', data_m3)] =
     Some (snd (cache_addMessage 200 (full_cache []) ''S'' data_m3)) \<and>
   bounded (snd (cache_addMessage 200 (full_cache []) ''S'' data_m3)) \<and>
   cache_addMessage 200 (full_cache []) ''S'' data_m3 =
     (Inr (), snd (cache_addMessage 200 (full_cache []) ''S'' data_m3)) \<and>
   window 200 (snd (cache_addMessage 200 (full_cache []) ''S'' data_m3)) ''S'' =
     data_m3 # take 49 (map filler (rev [0..<50])) \<and>
   length (window 200 (snd (cache_addMessage 200 (full_cache []) ''S'' data_m3)) ''S'') = 50"
proof -
  have b: "bounded (full_cache [])"
    by (simp add: bounded_def full_cache_def)
  have a: "cache_addMessage 200 (full_cache []) ''S'' data_m3 =
      (Inr (), snd (cache_addMessage 200 (full_cache []) ''S'' data_m3))"
    by (simp add: cache_addMessage_accepted full_cache_def)
  have r: "cache_appends (full_cache []) [(200, ''S'', data_m3)] =
      Some (snd (cache_addMessage 200 (full_cache []) ''S'' data_m3))"
    by (simp add: cache_addMessage_accepted full_cache_def)
  have w: "length (window 200 (cache st_two) ''S'') = 2"
    by (simp add: st_two_eq window_def live_def)
  show ?thesis
    using b a r w undisturbed_session(3)
      window_at_most_50 [where s = st_two and now = 200 and sessionId = "''S''"
        and c = "full_cache []" and calls = "[(200, ''S'', data_m3)]"
        and c' = "snd (cache_addMessage 200 (full_cache []) ''S'' data_m3)" and msg = data_m3
        and u = "()" and ?c1.0 = "snd (cache_addMessage 200 (full_cache []) ''S'' data_m3)"]
    by (simp add: full_cache_window)
qed

section \<open>messageCount\<close>

lemma coherent_st_created: "coherent st_created"
  by (auto simp add: coherent_def st_created_eq id_session_def projection_def conv_S_def
      split: if_splits)

lemma addMessages_st_two: "addMessages s3 st_created ''S'' [call_m1, call_m2] = Some st_two"
proof -
  have "addMessage s3 101 ''m1'' 11 st_created ''S'' ''user'' ''hello'' [] = (Inr doc_m1, st_one)"
    unfolding st_one_eq
    by (simp add: st_created_eq addMessage_def getConversation_hit cached_now_def live_def
        consumed_def save_message_def valid_message_def cache_addMessage_accepted window_def
        projection_def conv_S_def doc_m1_def data_m1_def Let_def)
  moreover
  have "addMessage s3 102 ''m2'' 12 st_one ''S'' ''assistant'' ''hi'' [] = (Inr doc_m2, st_two)"
    unfolding st_two_eq
    by (simp add: st_one_eq addMessage_def getConversation_hit cached_now_def live_def
        consumed_def save_message_def valid_message_def cache_addMessage_accepted window_def
        projection_def conv_S_def doc_m1_def data_m1_def doc_m2_def data_m2_def Let_def)
  ultimately show ?thesis
    by (simp add: call_m1_def call_m2_def)
qed

lemma addMessage_store_commands:
  assumes "addMessage upload now mid oid s sid role content files = (Inr m, s')"
  shows "\<exists>v s1. getConversation now s sid = (Inr (Some v), s1) \<and>
           md_conversationId (m_data m) = cc_id v \<and>
           run_store_commands s1 [SAVE m, INC (cc_id v) now] =
             Inr (s1\<lparr>conversations := conversations s', messages := messages s'\<rparr>)"
proof -
  obtain r s1 where g: "getConversation now s sid = (r, s1)"
    by (cases "getConversation now s sid")
  with assms obtain v where r: "r = Inr (Some v)"
    by (cases r; cases "projr r") (auto simp add: addMessage_def)
  from assms g r have "md_conversationId (m_data m) = cc_id v \<and>
      run_store_commands s1 [SAVE m, INC (cc_id v) now] =
        Inr (s1\<lparr>conversations := conversations s', messages := messages s'\<rparr>)"
    by (auto simp add: addMessage_def Let_def split: sum.splits prod.splits)
  with g r show ?thesis by blast
qed

lemma run_store_command_count:
  assumes "run_store_command s k = Inr s1"
  shows "messageCount_of s1 i =
           map_option (\<lambda>n. n + (case k of SAVE m \<Rightarrow> 0 | INC j t \<Rightarrow> if j = i then 1 else 0))
             (messageCount_of s i)"
    and "owned s1 i =
           owned s i +
             (case k of SAVE m \<Rightarrow> if md_conversationId (m_data m) = i then 1 else 0
              | INC j t \<Rightarrow> 0)"
  using assms
  by (cases k;
      auto simp add: messageCount_of_def owned_def save_message_def find_by_id_findByIdAndUpdate
        option.map_comp comp_def option.map_ident split: sum.splits if_splits)+

lemma run_store_commands_count:
  "run_store_commands s ks = Inr s' \<Longrightarrow>
   messageCount_of s' i = map_option (\<lambda>n. n + int (increments_of i ks)) (messageCount_of s i) \<and>
   owned s' i = owned s i + saves_of i ks"
proof (induction ks arbitrary: s)
  case Nil
  then show ?case by (simp add: option.map_ident)
next
  case (Cons k ks)
  from Cons.prems obtain s1 where k: "run_store_command s k = Inr s1"
    and rest: "run_store_commands s1 ks = Inr s'"
    by (auto split: sum.splits)
  from Cons.IH [OF rest] run_store_command_count [OF k, of i] show ?case
    by (cases k) (simp_all add: option.map_comp comp_def add.assoc)
qed

lemma interleaved_store_counts:
  "ks \<in> set (interleavings [SAVE a, INC i t1] [SAVE b, INC i t2]) \<Longrightarrow>
   md_conversationId (m_data a) = i \<Longrightarrow> md_conversationId (m_data b) = i \<Longrightarrow>
   increments_of i ks = 2 \<and> saves_of i ks = 2"
  by auto

lemma st_uncounted_store:
  "conversations st_uncounted = conversations st_two"
  "owned st_uncounted 1 = 3"
  by (simp_all add: st_uncounted_def with_faults_def st_two_eq addMessage_def getConversation_def
      getCachedConversation_eq cached_now_def live_def rejected_def save_message_def
      valid_message_def cache_addMessage_def lpush_def owned_def
      projection_def conv_S_def doc_m1_def data_m1_def doc_m2_def data_m2_def Let_def)

lemma reachable_st_uncounted: "reachable st_uncounted"
  unfolding st_uncounted_def with_faults_def
  by (intro reachable_add reachable_faults undisturbed_reachable undisturbed_session)

lemma addMessage_m1:
  "addMessage s3 101 ''m1'' 11 st_created ''S'' ''user'' ''hello'' [] = (Inr doc_m1, st_one)"
  unfolding st_one_eq
  by (simp add: st_created_eq addMessage_def getConversation_hit cached_now_def live_def
      consumed_def save_message_def valid_message_def cache_addMessage_accepted window_def
      projection_def conv_S_def doc_m1_def data_m1_def Let_def)

lemma store_commands_interleaved:
  "run_store_commands st_created [SAVE doc_m1, SAVE doc_m2, INC 1 101, INC 1 102] =
     Inr (st_created\<lparr>conversations := conversations st_two, messages := messages st_two\<rparr>)"
  by (simp add: st_created_eq st_two_eq save_message_def valid_message_def conv_S_def doc_m1_def
      data_m1_def doc_m2_def data_m2_def)

text \<open>
  C5, as the claim states it (\<^verbatim>\<open>messageCount\<close> is always the number of messages
  that the conversation owns): not so. After the two messages of the session the cache
  becomes unreachable for the second command to come. The \<^verbatim>\<open>addMessage\<close> at 103 reads
  the conversation from the cache, saves its message, and the \<^verbatim>\<open>LPUSH\<close> of the window
  is rejected: the call raises after the save and before the \<^verbatim>\<open>$inc\<close>. In the state
  that it leaves the conversation owns 3 messages and its \<^verbatim>\<open>messageCount\<close> is 2.
\<close>

theorem addMessage_saved_not_counted:
  "reachable (with_faults [False, True] st_two) \<and>
   messageCount_of (with_faults [False, True] st_two) 1 = Some 2 \<and>
   owned (with_faults [False, True] st_two) 1 = 2 \<and>
   fst (addMessage s3 103 ''m3'' 13 (with_faults [False, True] st_two) ''S'' ''user'' ''late'' []) =
     Inl CacheError \<and>
   st_uncounted =
     snd (addMessage s3 103 ''m3'' 13 (with_faults [False, True] st_two) ''S'' ''user'' ''late'' []) \<and>
   reachable st_uncounted \<and> owned st_uncounted 1 = 3 \<and> messageCount_of st_uncounted 1 = Some 2"
proof -
  have r: "reachable (with_faults [False, True] st_two)"
    unfolding with_faults_def
    by (intro reachable_faults undisturbed_reachable undisturbed_session)
  then have "reachable st_uncounted"
    unfolding st_uncounted_def by (rule reachable_add)
  with r show ?thesis
    by (simp add: st_uncounted_def with_faults_def st_two_eq addMessage_def getConversation_def
        getCachedConversation_eq cached_now_def live_def rejected_def save_message_def
        valid_message_def cache_addMessage_def lpush_def messageCount_of_def owned_def
        projection_def conv_S_def doc_m1_def data_m1_def doc_m2_def data_m2_def Let_def)
qed

text \<open>
  C5, amended: after \<open>N\<close> calls of \<^verbatim>\<open>addMessage\<close> in sequence on the session of a
  conversation, each returning its message, \<^verbatim>\<open>messageCount\<close> is \<open>N\<close> more than
  before (\<open>N\<close> for a new conversation) and so is the number of stored messages that the
  conversation owns. Each such call saves one message and then applies one \<^verbatim>\<open>$inc\<close> of
  1 to the stored counter, it does not count the messages again; so the Store steps of two
  calls, interleaved in any order, lose no increment: the counter is 2 more and the
  conversation owns 2 more messages. \<^verbatim>\<open>messageCount\<close> is the number of owned messages
  in every state reached while every cache command is accepted. A call whose cache push is
  rejected raises after its message is saved and before the \<^verbatim>\<open>$inc\<close>, so in the states
  that the service reaches in general \<^verbatim>\<open>messageCount\<close> is at most the number of owned
  messages.
\<close>

theorem messageCount_after_appends:
  "(coherent s \<and> c \<in> set (conversations s) \<and> c_sessionId c = sessionId \<and>
    addMessages upload s sessionId calls = Some s' \<longrightarrow>
      messageCount_of s' (c_id c) = Some (c_messageCount c + int (length calls)) \<and>
      owned s' (c_id c) = owned s (c_id c) + length calls \<and>
      (c_messageCount c = int (owned s (c_id c)) \<longrightarrow>
         messageCount_of s' (c_id c) = Some (int (owned s' (c_id c))))) \<and>
   (undisturbed s \<and> c \<in> set (conversations s) \<longrightarrow> c_messageCount c = int (owned s (c_id c))) \<and>
   (reachable s \<and> c \<in> set (conversations s) \<longrightarrow> c_messageCount c \<le> int (owned s (c_id c))) \<and>
   (addMessage upload now messageId oid s sessionId role content files = (Inr m, s2) \<longrightarrow>
      (case getConversation now s sessionId of
         (Inr (Some v), s1) \<Rightarrow>
           md_conversationId (m_data m) = cc_id v \<and>
           run_store_commands s1 [SAVE m, INC (cc_id v) now] =
             Inr (s1\<lparr>conversations := conversations s2, messages := messages s2\<rparr>)
       | (Inr None, s1) \<Rightarrow> False
       | (Inl e, s1) \<Rightarrow> False)) \<and>
   (ks \<in> set (interleavings [SAVE a, INC i t1] [SAVE b, INC i t2]) \<and>
    md_conversationId (m_data a) = i \<and> md_conversationId (m_data b) = i \<and>
    run_store_commands s ks = Inr sk \<longrightarrow>
      messageCount_of sk i = map_option (\<lambda>n. n + 2) (messageCount_of s i) \<and>
      owned sk i = owned s i + 2)"
proof (intro conjI impI)
  assume "undisturbed s \<and> c \<in> set (conversations s)"
  with undisturbed_steady [of s] show "c_messageCount c = int (owned s (c_id c))"
    by (simp add: steady_def counted_def)
next
  assume "reachable s \<and> c \<in> set (conversations s)"
  with reachable_sound [of s] show "c_messageCount c \<le> int (owned s (c_id c))"
    by (simp add: sound_def undercounted_def)
next
  assume "addMessage upload now messageId oid s sessionId role content files = (Inr m, s2)"
  from addMessage_store_commands [OF this]
  show "case getConversation now s sessionId of
         (Inr (Some v), s1) \<Rightarrow>
           md_conversationId (m_data m) = cc_id v \<and>
           run_store_commands s1 [SAVE m, INC (cc_id v) now] =
             Inr (s1\<lparr>conversations := conversations s2, messages := messages s2\<rparr>)
       | (Inr None, s1) \<Rightarrow> False
       | (Inl e, s1) \<Rightarrow> False"
    by auto
next
  assume h: "ks \<in> set (interleavings [SAVE a, INC i t1] [SAVE b, INC i t2]) \<and>
    md_conversationId (m_data a) = i \<and> md_conversationId (m_data b) = i \<and>
    run_store_commands s ks = Inr sk"
  then have n: "increments_of i ks = 2 \<and> saves_of i ks = 2"
    using interleaved_store_counts [of ks a i t1 b t2] by blast
  from h have "run_store_commands s ks = Inr sk" by simp
  from run_store_commands_count [OF this, of i] n
  show "messageCount_of sk i = map_option (\<lambda>n. n + 2) (messageCount_of s i)"
    and "owned sk i = owned s i + 2"
    by simp_all
next
  assume h: "coherent s \<and> c \<in> set (conversations s) \<and> c_sessionId c = sessionId \<and>
    addMessages upload s sessionId calls = Some s'"
  then have co: "coherent s" and c: "c \<in> set (conversations s)" "c_sessionId c = sessionId"
    and run: "addMessages upload s sessionId calls = Some s'"
    by simp_all
  from c have p: "(c_id c, sessionId) \<in> set (id_session s)"
    by (auto simp add: id_session_def)
  from co c(1) have k: "messageCount_of s (c_id c) = Some (c_messageCount c)"
    by (simp add: messageCount_of_def coherent_def find_by_id_member)
  note n = addMessages_count [OF co p run]
  from n k show "messageCount_of s' (c_id c) = Some (c_messageCount c + int (length calls))"
    by simp
  from n show "owned s' (c_id c) = owned s (c_id c) + length calls"
    by simp
  assume "c_messageCount c = int (owned s (c_id c))"
  with n k show "messageCount_of s' (c_id c) = Some (int (owned s' (c_id c)))"
    by simp
qed

text \<open>The session above: the new conversation and its two messages, one after the other
  and with their Store steps interleaved; and the state that the rejected push leaves.\<close>

theorem messageCount_after_appends_witness:
  "coherent st_created \<and> conv_S \<in> set (conversations st_created) \<and>
   c_sessionId conv_S = ''S'' \<and> c_messageCount conv_S = 0 \<and> owned st_created 1 = 0 \<and>
   addMessages s3 st_created ''S'' [call_m1, call_m2] = Some st_two \<and>
   messageCount_of st_two 1 = Some 2 \<and> owned st_two 1 = 2 \<and>
   undisturbed st_created \<and>
   reachable st_uncounted \<and>
   conv_S\<lparr>c_lastActivity := 102, c_messageCount := 2, c_updatedAt := 102\<rparr> \<in>
     set (conversations st_uncounted) \<and>
   owned st_uncounted 1 = 3 \<and>
   addMessage s3 101 ''m1'' 11 st_created ''S'' ''user'' ''hello'' [] = (Inr doc_m1, st_one) \<and>
   run_store_commands st_created [SAVE doc_m1, INC 1 101] =
     Inr (st_created\<lparr>conversations := conversations st_one, messages := messages st_one\<rparr>) \<and>
   [SAVE doc_m1, SAVE doc_m2, INC 1 101, INC 1 102] \<in>
     set (interleavings [SAVE doc_m1, INC 1 101] [SAVE doc_m2, INC 1 102]) \<and>
   run_store_commands st_created [SAVE doc_m1, SAVE doc_m2, INC 1 101, INC 1 102] =
     Inr (st_created\<lparr>conversations := conversations st_two, messages := messages st_two\<rparr>) \<and>
   messageCount_of
     (st_created\<lparr>conversations := conversations st_two, messages := messages st_two\<rparr>) 1 =
     Some 2 \<and>
   owned (st_created\<lparr>conversations := conversations st_two, messages := messages st_two\<rparr>) 1 = 2"
proof -
  have c: "conv_S \<in> set (conversations st_created)"
    by (simp add: st_created_eq)
  have sid: "c_sessionId conv_S = ''S''" and z: "c_messageCount conv_S = 0"
    by (simp_all add: conv_S_def)
  have o: "owned st_created 1 = 0"
    by (simp add: owned_def st_created_eq)
  have k: "messageCount_of st_created 1 = Some 0"
    by (simp add: messageCount_of_def st_created_eq conv_S_def)
  have u: "conv_S\<lparr>c_lastActivity := 102, c_messageCount := 2, c_updatedAt := 102\<rparr> \<in>
     set (conversations st_uncounted)"
    by (simp add: st_uncounted_store st_two_eq)
  have i: "[SAVE doc_m1, SAVE doc_m2, INC 1 101, INC 1 102] \<in>
     set (interleavings [SAVE doc_m1, INC 1 101] [SAVE doc_m2, INC 1 102])"
    by simp
  have d: "md_conversationId (m_data doc_m1) = 1" "md_conversationId (m_data doc_m2) = 1"
    "c_id conv_S = 1"
    by (simp_all add: doc_m1_def data_m1_def doc_m2_def data_m2_def conv_S_def)
  have g: "getConversation 101 st_created ''S'' = (Inr (Some (projection conv_S)), st_created)"
    by (simp add: st_created_eq getConversation_hit cached_now_def live_def consumed_def)
  note t1 = messageCount_after_appends [of st_created conv_S "''S''" s3
      "[call_m1, call_m2]" st_two 101 "''m1''" 11 "''user''" "''hello''" "[]" doc_m1 st_one
      "[SAVE doc_m1, SAVE doc_m2, INC 1 101, INC 1 102]" doc_m1 1 101 doc_m2 102
      "st_created\<lparr>conversations := conversations st_two, messages := messages st_two\<rparr>"]
  note t2 = messageCount_after_appends [of st_uncounted
      "conv_S\<lparr>c_lastActivity := 102, c_messageCount := 2, c_updatedAt := 102\<rparr>"]
  from t1 t2 c sid z o k u i d g coherent_st_created addMessages_st_two undisturbed_session(1)
    reachable_st_uncounted st_uncounted_store(2) addMessage_m1 store_commands_interleaved
  show ?thesis
    by (simp add: projection_def del: run_store_commands.simps interleavings.simps)
qed

end
